theory Spec2Isabelle
  imports Main
begin

section \<open>Python containers used by the two graph classes\<close>

text \<open>
  The vertex labels (\<^verbatim>\<open>Coordinates\<close>) are an opaque value type with equality; they are
  the type parameter \<open>'v\<close>. An edge is the tuple \<^verbatim>\<open>(vert1, vert2, wallStatus)\<close>.
\<close>

type_synonym 'v edge = "'v \<times> 'v \<times> bool"

text \<open>
  Indexing a Python list out of range raises \<^verbatim>\<open>IndexError\<close>, reading a missing
  dictionary key raises \<^verbatim>\<open>KeyError\<close>. Every index the two classes use is a length,
  a loop counter or a stored row number, hence never negative, so indices are naturals.
\<close>

datatype error = IndexError | KeyError

definition list_getitem :: "'a list \<Rightarrow> nat \<Rightarrow> error + 'a" where
  "list_getitem xs i = (if i < length xs then Inr (xs ! i) else Inl IndexError)"

definition list_setitem :: "'a list \<Rightarrow> nat \<Rightarrow> 'a \<Rightarrow> error + 'a list" where
  "list_setitem xs i x = (if i < length xs then Inr (xs[i := x]) else Inl IndexError)"

text \<open>\<^verbatim>\<open>xs.pop(i)\<close>; the popped element is not used by the callers, the remaining list is returned.\<close>

definition list_pop :: "'a list \<Rightarrow> nat \<Rightarrow> error + 'a list" where
  "list_pop xs i = (if i < length xs then Inr (take i xs @ drop (Suc i) xs) else Inl IndexError)"

text \<open>
  A \<^verbatim>\<open>dict\<close> is an association list in insertion order: \<^verbatim>\<open>len\<close> is its length,
  \<^verbatim>\<open>d[k] = x\<close> overwrites the entry of an existing key in place and appends a new key.
\<close>

type_synonym ('k, 'a) dict = "('k \<times> 'a) list"

definition dict_contains :: "('k, 'a) dict \<Rightarrow> 'k \<Rightarrow> bool" where
  "dict_contains d k = (map_of d k \<noteq> None)"

definition dict_getitem :: "('k, 'a) dict \<Rightarrow> 'k \<Rightarrow> error + 'a" where
  "dict_getitem d k = (case map_of d k of None \<Rightarrow> Inl KeyError | Some x \<Rightarrow> Inr x)"

fun dict_setitem :: "('k, 'a) dict \<Rightarrow> 'k \<Rightarrow> 'a \<Rightarrow> ('k, 'a) dict" where
  "dict_setitem [] k x = [(k, x)]"
| "dict_setitem ((k', y) # d) k x =
     (if k' = k then (k, x) # d else (k', y) # dict_setitem d k x)"

text \<open>
  An exception raised by a step ends the call: the rest is skipped. The result is then
  the exception alone; the object, which the call may have changed in part, is not
  followed any further.
\<close>

definition and_then :: "error + 'a \<Rightarrow> ('a \<Rightarrow> error + 'b) \<Rightarrow> error + 'b" where
  "and_then r f = (case r of Inl e \<Rightarrow> Inl e | Inr x \<Rightarrow> f x)"

text \<open>
  \<^verbatim>\<open>for i, e in enumerate(xs): if P(e): ...; return\<close> acts on the first element that
  satisfies the test, at its index; \<open>None\<close> is the loop running to its end.
\<close>

fun enumerate_find :: "('a \<Rightarrow> bool) \<Rightarrow> nat \<Rightarrow> 'a list \<Rightarrow> (nat \<times> 'a) option" where
  "enumerate_find P i [] = None"
| "enumerate_find P i (x # xs) = (if P x then Some (i, x) else enumerate_find P (Suc i) xs)"

section \<open>EdgeListGraph\<close>

record 'v EdgeListGraph =
  el_edges :: "'v edge list"
  el_vertices :: "'v set"

definition el_init :: "'v EdgeListGraph" where
  "el_init = \<lparr>el_edges = [], el_vertices = {}\<rparr>"

definition el_addVertex :: "'v EdgeListGraph \<Rightarrow> 'v \<Rightarrow> 'v EdgeListGraph" where
  "el_addVertex g label = g\<lparr>el_vertices := insert label (el_vertices g)\<rparr>"

fun el_addVertices :: "'v EdgeListGraph \<Rightarrow> 'v list \<Rightarrow> 'v EdgeListGraph" where
  "el_addVertices g [] = g"
| "el_addVertices g (label # vertLabels) = el_addVertices (el_addVertex g label) vertLabels"

definition el_hasVertex :: "'v EdgeListGraph \<Rightarrow> 'v \<Rightarrow> bool" where
  "el_hasVertex g label = (label \<in> el_vertices g)"

definition el_hasEdge :: "'v EdgeListGraph \<Rightarrow> 'v \<Rightarrow> 'v \<Rightarrow> bool" where
  "el_hasEdge g vert1 vert2 =
     list_ex (\<lambda>(v1, v2, _). (v1 = vert1 \<and> v2 = vert2) \<or> (v2 = vert1 \<and> v1 = vert2)) (el_edges g)"

text \<open>
  The parameter \<^verbatim>\<open>addWall: bool = False\<close> of \<^verbatim>\<open>addEdge\<close> is optional in both
  classes: \<open>None\<close> is the omitted argument, \<open>wall_arg\<close> the value the body sees.
\<close>

definition wall_arg :: "bool option \<Rightarrow> bool" where
  "wall_arg addWall = (case addWall of None \<Rightarrow> False | Some b \<Rightarrow> b)"

definition el_addEdge ::
  "'v EdgeListGraph \<Rightarrow> 'v \<Rightarrow> 'v \<Rightarrow> bool option \<Rightarrow> bool \<times> 'v EdgeListGraph" where
  "el_addEdge g vert1 vert2 addWall_arg =
     (let addWall = wall_arg addWall_arg in
      if \<not> el_hasVertex g vert1 \<or> \<not> el_hasVertex g vert2 then (False, g)
      else if \<not> el_hasEdge g vert1 vert2
        then (True, g\<lparr>el_edges := el_edges g @ [(vert1, vert2, addWall)]\<rparr>)
      else (False, g))"

definition el_updateWall ::
  "'v EdgeListGraph \<Rightarrow> 'v \<Rightarrow> 'v \<Rightarrow> bool \<Rightarrow> error + bool \<times> 'v EdgeListGraph" where
  "el_updateWall g vert1 vert2 wallStatus =
     (case enumerate_find
             (\<lambda>(v1, v2, _). (v1 = vert1 \<and> v2 = vert2) \<or> (v1 = vert2 \<and> v2 = vert1)) 0 (el_edges g) of
        Some (i, (v1, v2, _)) \<Rightarrow>
          and_then (list_setitem (el_edges g) i (v1, v2, wallStatus))
            (\<lambda>edges'. Inr (True, g\<lparr>el_edges := edges'\<rparr>))
      | None \<Rightarrow> Inr (False, g))"

definition el_removeEdge ::
  "'v EdgeListGraph \<Rightarrow> 'v \<Rightarrow> 'v \<Rightarrow> error + bool \<times> 'v EdgeListGraph" where
  "el_removeEdge g vert1 vert2 =
     (case enumerate_find
             (\<lambda>(v1, v2, _). (v1 = vert1 \<and> v2 = vert2) \<or> (v1 = vert2 \<and> v2 = vert1)) 0 (el_edges g) of
        Some (i, _) \<Rightarrow>
          and_then (list_pop (el_edges g) i)
            (\<lambda>edges'. Inr (True, g\<lparr>el_edges := edges'\<rparr>))
      | None \<Rightarrow> Inr (False, g))"

fun el_getWallStatus_loop :: "'v \<Rightarrow> 'v \<Rightarrow> 'v edge list \<Rightarrow> bool" where
  "el_getWallStatus_loop vert1 vert2 [] = False"
| "el_getWallStatus_loop vert1 vert2 ((v1, v2, wallStatus) # es) =
     (if (v1 = vert1 \<and> v2 = vert2) \<or> (v1 = vert2 \<and> v2 = vert1) then wallStatus
      else el_getWallStatus_loop vert1 vert2 es)"

definition el_getWallStatus :: "'v EdgeListGraph \<Rightarrow> 'v \<Rightarrow> 'v \<Rightarrow> bool" where
  "el_getWallStatus g vert1 vert2 = el_getWallStatus_loop vert1 vert2 (el_edges g)"

fun el_neighbours_loop :: "'v \<Rightarrow> 'v edge list \<Rightarrow> 'v list \<Rightarrow> 'v list" where
  "el_neighbours_loop label [] neighbours = neighbours"
| "el_neighbours_loop label ((v1, v2, _) # es) neighbours =
     (if v1 = label then el_neighbours_loop label es (neighbours @ [v2])
      else if v2 = label then el_neighbours_loop label es (neighbours @ [v1])
      else el_neighbours_loop label es neighbours)"

definition el_neighbours :: "'v EdgeListGraph \<Rightarrow> 'v \<Rightarrow> 'v list" where
  "el_neighbours g label = el_neighbours_loop label (el_edges g) []"

section \<open>IncMatGraph\<close>

text \<open>
  \<open>im_vertices\<close> is the dictionary from a vertex to its row number. Every row of
  \<open>im_incidence_mat\<close> is a list object of its own (\<^verbatim>\<open>[0] * n\<close> builds a fresh list for each
  new vertex), so a write to one row is never seen through another.
\<close>

record 'v IncMatGraph =
  im_vertices :: "('v, nat) dict"
  im_edges :: "'v edge list"
  im_incidence_mat :: "int list list"

definition im_init :: "'v IncMatGraph" where
  "im_init = \<lparr>im_vertices = [], im_edges = [], im_incidence_mat = []\<rparr>"

definition im_hasVertex :: "'v IncMatGraph \<Rightarrow> 'v \<Rightarrow> bool" where
  "im_hasVertex g label = dict_contains (im_vertices g) label"

definition im_hasEdge :: "'v IncMatGraph \<Rightarrow> 'v \<Rightarrow> 'v \<Rightarrow> bool" where
  "im_hasEdge g vert1 vert2 =
     list_ex (\<lambda>(v1, v2, _). (v1 = vert1 \<and> v2 = vert2) \<or> (v1 = vert2 \<and> v2 = vert1)) (im_edges g)"

definition im_addVertex :: "'v IncMatGraph \<Rightarrow> 'v \<Rightarrow> 'v IncMatGraph" where
  "im_addVertex g label =
     (if \<not> im_hasVertex g label
      then g\<lparr>im_vertices := dict_setitem (im_vertices g) label (length (im_vertices g)),
             im_incidence_mat := im_incidence_mat g @ [replicate (length (im_edges g)) 0]\<rparr>
      else g)"

fun im_addVertices :: "'v IncMatGraph \<Rightarrow> 'v list \<Rightarrow> 'v IncMatGraph" where
  "im_addVertices g [] = g"
| "im_addVertices g (label # vertLabels) = im_addVertices (im_addVertex g label) vertLabels"

text \<open>\<^verbatim>\<open>mat[r][c] = x\<close>: fetch row \<open>r\<close>, then store into it at \<open>c\<close>.\<close>

definition mat_setitem :: "int list list \<Rightarrow> nat \<Rightarrow> nat \<Rightarrow> int \<Rightarrow> error + int list list" where
  "mat_setitem mat r c x =
     and_then (list_getitem mat r) (\<lambda>row.
     and_then (list_setitem row c x) (\<lambda>row'.
     Inr (mat[r := row'])))"

definition im_addEdge ::
  "'v IncMatGraph \<Rightarrow> 'v \<Rightarrow> 'v \<Rightarrow> bool option \<Rightarrow> error + bool \<times> 'v IncMatGraph" where
  "im_addEdge g vert1 vert2 addWall_arg =
     (let addWall = wall_arg addWall_arg in
      if \<not> dict_contains (im_vertices g) vert1 \<or> \<not> dict_contains (im_vertices g) vert2
        then Inr (False, g)
      else if im_hasEdge g vert1 vert2 then Inr (False, g)
      else
        let edges' = im_edges g @ [(vert1, vert2, addWall)];
            mat0 = map (\<lambda>row. row @ [0]) (im_incidence_mat g);
            index = length edges' - 1
        in and_then (dict_getitem (im_vertices g) vert1) (\<lambda>r1.
           and_then (mat_setitem mat0 r1 index 1) (\<lambda>mat1.
           and_then (dict_getitem (im_vertices g) vert2) (\<lambda>r2.
           and_then (mat_setitem mat1 r2 index 1) (\<lambda>mat2.
           Inr (True, g\<lparr>im_edges := edges', im_incidence_mat := mat2\<rparr>))))))"

definition im_updateWall ::
  "'v IncMatGraph \<Rightarrow> 'v \<Rightarrow> 'v \<Rightarrow> bool \<Rightarrow> error + bool \<times> 'v IncMatGraph" where
  "im_updateWall g vert1 vert2 wallStatus =
     (case enumerate_find
             (\<lambda>(v1, v2, _). (v1 = vert1 \<and> v2 = vert2) \<or> (v1 = vert2 \<and> v2 = vert1)) 0 (im_edges g) of
        Some (i, (v1, v2, _)) \<Rightarrow>
          and_then (list_setitem (im_edges g) i (v1, v2, wallStatus))
            (\<lambda>edges'. Inr (True, g\<lparr>im_edges := edges'\<rparr>))
      | None \<Rightarrow> Inr (False, g))"

text \<open>\<^verbatim>\<open>for row in mat: row.pop(i)\<close>, stopping at the first row that is too short.\<close>

fun pop_column :: "int list list \<Rightarrow> nat \<Rightarrow> error + int list list" where
  "pop_column [] i = Inr []"
| "pop_column (row # rows) i =
     and_then (list_pop row i) (\<lambda>row'.
     and_then (pop_column rows i) (\<lambda>rows'.
     Inr (row' # rows')))"

definition im_removeEdge ::
  "'v IncMatGraph \<Rightarrow> 'v \<Rightarrow> 'v \<Rightarrow> error + bool \<times> 'v IncMatGraph" where
  "im_removeEdge g vert1 vert2 =
     (case enumerate_find
             (\<lambda>(v1, v2, _). (v1 = vert1 \<and> v2 = vert2) \<or> (v2 = vert1 \<and> v1 = vert2)) 0 (im_edges g) of
        Some (i, _) \<Rightarrow>
          and_then (list_pop (im_edges g) i) (\<lambda>edges'.
          and_then (pop_column (im_incidence_mat g) i) (\<lambda>mat'.
          Inr (True, g\<lparr>im_edges := edges', im_incidence_mat := mat'\<rparr>)))
      | None \<Rightarrow> Inr (False, g))"

fun im_getWallStatus_loop :: "'v \<Rightarrow> 'v \<Rightarrow> 'v edge list \<Rightarrow> bool" where
  "im_getWallStatus_loop vert1 vert2 [] = False"
| "im_getWallStatus_loop vert1 vert2 ((v1, v2, status) # es) =
     (if (v1 = vert1 \<and> v2 = vert2) \<or> (v2 = vert1 \<and> v1 = vert2) then status
      else im_getWallStatus_loop vert1 vert2 es)"

definition im_getWallStatus :: "'v IncMatGraph \<Rightarrow> 'v \<Rightarrow> 'v \<Rightarrow> bool" where
  "im_getWallStatus g vert1 vert2 = im_getWallStatus_loop vert1 vert2 (im_edges g)"

text \<open>
  The loop of \<^verbatim>\<open>neighbours\<close>: \<open>i\<close> is the counter of \<^verbatim>\<open>enumerate\<close>, the edge list
  argument holds the edges still to visit.
\<close>

fun im_neighbours_loop ::
  "'v \<Rightarrow> nat \<Rightarrow> int list list \<Rightarrow> nat \<Rightarrow> 'v edge list \<Rightarrow> 'v list \<Rightarrow> error + 'v list" where
  "im_neighbours_loop label index mat i [] neighbours = Inr neighbours"
| "im_neighbours_loop label index mat i ((v1, v2, _) # es) neighbours =
     and_then (list_getitem mat index) (\<lambda>row.
     and_then (list_getitem row i) (\<lambda>cell.
       if cell = 1 then
         (if v1 = label then im_neighbours_loop label index mat (Suc i) es (neighbours @ [v2])
          else im_neighbours_loop label index mat (Suc i) es (neighbours @ [v1]))
       else im_neighbours_loop label index mat (Suc i) es neighbours))"

definition im_neighbours :: "'v IncMatGraph \<Rightarrow> 'v \<Rightarrow> error + 'v list" where
  "im_neighbours g label =
     (if im_hasVertex g label
      then and_then (dict_getitem (im_vertices g) label) (\<lambda>index.
             im_neighbours_loop label index (im_incidence_mat g) 0 (im_edges g) [])
      else Inr [])"

section \<open>Sequences of calls\<close>

datatype 'v call =
    AddVertex 'v
  | AddVertices "'v list"
  | AddEdge 'v 'v "bool option"
  | UpdateWall 'v 'v bool
  | RemoveEdge 'v 'v

fun el_call :: "'v EdgeListGraph \<Rightarrow> 'v call \<Rightarrow> error + 'v EdgeListGraph" where
  "el_call g (AddVertex v) = Inr (el_addVertex g v)"
| "el_call g (AddVertices vs) = Inr (el_addVertices g vs)"
| "el_call g (AddEdge v1 v2 w) = Inr (snd (el_addEdge g v1 v2 w))"
| "el_call g (UpdateWall v1 v2 s) = and_then (el_updateWall g v1 v2 s) (\<lambda>(_, g'). Inr g')"
| "el_call g (RemoveEdge v1 v2) = and_then (el_removeEdge g v1 v2) (\<lambda>(_, g'). Inr g')"

fun im_call :: "'v IncMatGraph \<Rightarrow> 'v call \<Rightarrow> error + 'v IncMatGraph" where
  "im_call g (AddVertex v) = Inr (im_addVertex g v)"
| "im_call g (AddVertices vs) = Inr (im_addVertices g vs)"
| "im_call g (AddEdge v1 v2 w) = and_then (im_addEdge g v1 v2 w) (\<lambda>(_, g'). Inr g')"
| "im_call g (UpdateWall v1 v2 s) = and_then (im_updateWall g v1 v2 s) (\<lambda>(_, g'). Inr g')"
| "im_call g (RemoveEdge v1 v2) = and_then (im_removeEdge g v1 v2) (\<lambda>(_, g'). Inr g')"

text \<open>A sequence of calls on one object; an uncaught exception ends the run.\<close>

fun el_calls :: "'v EdgeListGraph \<Rightarrow> 'v call list \<Rightarrow> error + 'v EdgeListGraph" where
  "el_calls g [] = Inr g"
| "el_calls g (c # cs) = and_then (el_call g c) (\<lambda>g'. el_calls g' cs)"

fun im_calls :: "'v IncMatGraph \<Rightarrow> 'v call list \<Rightarrow> error + 'v IncMatGraph" where
  "im_calls g [] = Inr g"
| "im_calls g (c # cs) = and_then (im_call g c) (\<lambda>g'. im_calls g' cs)"

text \<open>The states a fresh object can reach.\<close>

definition el_run :: "'v call list \<Rightarrow> error + 'v EdgeListGraph" where
  "el_run cs = el_calls el_init cs"

definition im_run :: "'v call list \<Rightarrow> error + 'v IncMatGraph" where
  "im_run cs = im_calls im_init cs"

section \<open>Notions used in the proofs\<close>

text \<open>
  The test every edge scan makes, whichever way the source spells it: the edge runs
  between \<open>a\<close> and \<open>b\<close>, in either order.
\<close>

definition joins :: "'v \<Rightarrow> 'v \<Rightarrow> 'v edge \<Rightarrow> bool" where
  "joins a b e = (case e of (v1, v2, _) \<Rightarrow> (v1 = a \<and> v2 = b) \<or> (v1 = b \<and> v2 = a))"

text \<open>The endpoints of an edge as an unordered pair.\<close>

definition ends :: "'v edge \<Rightarrow> 'v set" where
  "ends e = (case e of (v1, v2, _) \<Rightarrow> {v1, v2})"

text \<open>
  What both \<^verbatim>\<open>neighbours\<close> loops compute from the edge list: for every edge that
  has \<open>v\<close> as an endpoint, in order, the other endpoint (\<open>v\<close> itself for a self-loop).
\<close>

fun other_ends :: "'v \<Rightarrow> 'v edge list \<Rightarrow> 'v list" where
  "other_ends v [] = []"
| "other_ends v ((a, b, _) # es) =
     (if a = v then b # other_ends v es
      else if b = v then a # other_ends v es
      else other_ends v es)"

text \<open>The matrix row a vertex must have for a given edge list: 1 where it is an endpoint.\<close>

definition incidence_row :: "'v edge list \<Rightarrow> 'v \<Rightarrow> int list" where
  "incidence_row es v = map (\<lambda>(a, b, _). if a = v \<or> b = v then 1 else 0) es"

text \<open>The flag of the first edge between \<open>a\<close> and \<open>b\<close>, false when there is none.\<close>

fun first_wall :: "'v \<Rightarrow> 'v \<Rightarrow> 'v edge list \<Rightarrow> bool" where
  "first_wall a b [] = False"
| "first_wall a b (e # es) = (if joins a b e then snd (snd e) else first_wall a b es)"

text \<open>
  The effect of the two scans that change the edge list: the first edge between \<open>a\<close>
  and \<open>b\<close> gets a new flag, or is taken out.
\<close>

fun set_first :: "'v \<Rightarrow> 'v \<Rightarrow> bool \<Rightarrow> 'v edge list \<Rightarrow> 'v edge list" where
  "set_first a b s [] = []"
| "set_first a b s (e # es) =
     (if joins a b e then (fst e, fst (snd e), s) # es else e # set_first a b s es)"

fun del_first :: "'v \<Rightarrow> 'v \<Rightarrow> 'v edge list \<Rightarrow> 'v edge list" where
  "del_first a b [] = []"
| "del_first a b (e # es) = (if joins a b e then es else e # del_first a b es)"

text \<open>
  The invariants. The vertex dictionary numbers its keys \<open>0, 1, \<dots>\<close> in insertion
  order; the edges run between vertices and no two of them join the same pair; the matrix
  is the one the vertices and edges determine.
\<close>

definition dict_ok :: "('k, nat) dict \<Rightarrow> bool" where
  "dict_ok d \<longleftrightarrow> map snd d = [0..<length d] \<and> distinct (map fst d)"

definition edges_ok :: "'v set \<Rightarrow> 'v edge list \<Rightarrow> bool" where
  "edges_ok V es \<longleftrightarrow> (\<forall>e\<in>set es. ends e \<subseteq> V) \<and> distinct (map ends es)"

definition el_inv :: "'v EdgeListGraph \<Rightarrow> bool" where
  "el_inv g \<longleftrightarrow> edges_ok (el_vertices g) (el_edges g)"

definition im_inv :: "'v IncMatGraph \<Rightarrow> bool" where
  "im_inv g \<longleftrightarrow> dict_ok (im_vertices g) \<and> edges_ok (fst ` set (im_vertices g)) (im_edges g) \<and>
     im_incidence_mat g = map (incidence_row (im_edges g)) (map fst (im_vertices g))"

text \<open>The two objects hold the same edge list and the same vertices.\<close>

definition sim :: "'v EdgeListGraph \<Rightarrow> 'v IncMatGraph \<Rightarrow> bool" where
  "sim ge gi \<longleftrightarrow> el_edges ge = im_edges gi \<and> el_vertices ge = fst ` set (im_vertices gi)"

text \<open>
  Column \<open>c\<close> of the matrix, top to bottom. It is read only where every row has a cell
  \<open>c\<close>, which the statements below establish for the states they are about.
\<close>

definition mat_column :: "int list list \<Rightarrow> nat \<Rightarrow> int list" where
  "mat_column mat c = map (\<lambda>row. row ! c) mat"

text \<open>The vertices a sequence of calls adds, by \<^verbatim>\<open>addVertex\<close> or \<^verbatim>\<open>addVertices\<close>.\<close>

fun added_vertices :: "'v call list \<Rightarrow> 'v set" where
  "added_vertices [] = {}"
| "added_vertices (AddVertex v # cs) = insert v (added_vertices cs)"
| "added_vertices (AddVertices vs # cs) = set vs \<union> added_vertices cs"
| "added_vertices (_ # cs) = added_vertices cs"

section \<open>Properties of the model\<close>

lemma joins_simp [simp]: "joins a b (v1, v2, w) = ((v1 = a \<and> v2 = b) \<or> (v1 = b \<and> v2 = a))"
  by (simp add: joins_def)

lemma joins_sym: "joins a b e = joins b a e"
  by (cases e) auto

lemma joins_ends: "joins a b e = (ends e = {a, b})"
  by (cases e) (auto simp: ends_def doubleton_eq_iff)

lemma match_cond_joins: "(\<lambda>(v1, v2, _). (v1 = a \<and> v2 = b) \<or> (v1 = b \<and> v2 = a)) = joins a b"
  by (auto simp: fun_eq_iff)

lemma match_cond_joins_swapped: "(\<lambda>(v1, v2, _). (v1 = a \<and> v2 = b) \<or> (v2 = a \<and> v1 = b)) = joins a b"
  by (auto simp: fun_eq_iff)

lemma enumerate_find_None: "enumerate_find P i xs = None \<longleftrightarrow> (\<forall>x\<in>set xs. \<not> P x)"
  by (induction xs arbitrary: i) auto

lemma enumerate_find_Some:
  "enumerate_find P i xs = Some (j, x) \<longleftrightarrow>
     (\<exists>ys zs. xs = ys @ x # zs \<and> (\<forall>y\<in>set ys. \<not> P y) \<and> P x \<and> j = i + length ys)"
proof (induction xs arbitrary: i)
  case Nil
  then show ?case by simp
next
  case (Cons a xs)
  show ?case
  proof (cases "P a")
    case True
    have "(\<exists>ys zs. a # xs = ys @ x # zs \<and> (\<forall>y\<in>set ys. \<not> P y) \<and> P x \<and> j = i + length ys)
          \<longleftrightarrow> (a = x \<and> j = i)"
      using True by (auto simp: Cons_eq_append_conv)
    then show ?thesis using True by auto
  next
    case False
    have "(\<exists>ys zs. a # xs = ys @ x # zs \<and> (\<forall>y\<in>set ys. \<not> P y) \<and> P x \<and> j = i + length ys)
          \<longleftrightarrow> (\<exists>ys zs. xs = ys @ x # zs \<and> (\<forall>y\<in>set ys. \<not> P y) \<and> P x \<and> j = Suc i + length ys)"
      (is "?L \<longleftrightarrow> ?R")
    proof
      assume ?L
      then obtain ys zs where h: "a # xs = ys @ x # zs" "\<forall>y\<in>set ys. \<not> P y" "P x" "j = i + length ys"
        by blast
      from h False obtain ys' where "ys = a # ys'" by (cases ys) auto
      with h show ?R by auto
    next
      assume ?R
      then obtain ys zs where h: "xs = ys @ x # zs" "\<forall>y\<in>set ys. \<not> P y" "P x" "j = Suc i + length ys"
        by blast
      then have "a # xs = (a # ys) @ x # zs \<and> (\<forall>y\<in>set (a # ys). \<not> P y) \<and> P x \<and> j = i + length (a # ys)"
        using False by simp
      then show ?L by blast
    qed
    then show ?thesis using False Cons.IH[of "Suc i"] by simp
  qed
qed

lemma enumerate_find_cases:
  obtains (none) "enumerate_find P 0 xs = None" "\<forall>x\<in>set xs. \<not> P x"
  | (some) ys x zs where "enumerate_find P 0 xs = Some (length ys, x)" "xs = ys @ x # zs"
      "\<forall>y\<in>set ys. \<not> P y" "P x"
proof (cases "enumerate_find P 0 xs")
  case None
  then show ?thesis using none by (simp add: enumerate_find_None)
next
  case (Some p)
  obtain j x where p: "p = (j, x)" by (cases p)
  with Some enumerate_find_Some[of P 0 xs j x] obtain ys zs where
    "xs = ys @ x # zs" "\<forall>y\<in>set ys. \<not> P y" "P x" "j = length ys" by auto
  then show ?thesis using some Some p by blast
qed

lemma list_setitem_mid [simp]: "list_setitem (ys @ x # zs) (length ys) x' = Inr (ys @ x' # zs)"
  by (simp add: list_setitem_def)

lemma list_pop_mid [simp]: "list_pop (ys @ x # zs) (length ys) = Inr (ys @ zs)"
  by (simp add: list_pop_def)

lemma and_then_Inr [simp]: "and_then (Inr x) f = f x"
  by (simp add: and_then_def)

lemma and_then_Inl [simp]: "and_then (Inl e) f = Inl e"
  by (simp add: and_then_def)

lemma el_hasEdge_iff: "el_hasEdge g a b \<longleftrightarrow> (\<exists>e\<in>set (el_edges g). joins a b e)"
  by (simp add: el_hasEdge_def match_cond_joins_swapped list_ex_iff)

lemma im_hasEdge_iff: "im_hasEdge g a b \<longleftrightarrow> (\<exists>e\<in>set (im_edges g). joins a b e)"
  by (simp add: im_hasEdge_def match_cond_joins list_ex_iff)

lemma el_getWallStatus_loop_eq: "el_getWallStatus_loop a b es = first_wall a b es"
  by (induction es) auto

lemma im_getWallStatus_loop_eq: "im_getWallStatus_loop a b es = first_wall a b es"
  by (induction es) auto

lemma first_wall_sym: "first_wall a b es = first_wall b a es"
  by (induction es) (auto simp: joins_sym[of a b])

lemma first_wall_none: "\<forall>e\<in>set es. \<not> joins a b e \<Longrightarrow> first_wall a b es = False"
  by (induction es) auto

lemma first_wall_split:
  "\<forall>y\<in>set ys. \<not> joins a b y \<Longrightarrow> joins a b x \<Longrightarrow> first_wall a b (ys @ x # zs) = snd (snd x)"
  by (induction ys) auto

lemma el_neighbours_loop_eq: "el_neighbours_loop v es acc = acc @ other_ends v es"
  by (induction es arbitrary: acc) auto

lemma other_ends_append: "other_ends v (xs @ ys) = other_ends v xs @ other_ends v ys"
  by (induction xs) auto

lemma set_other_ends: "set (other_ends v es) = {w. \<exists>e\<in>set es. joins v w e}"
proof (induction es)
  case Nil
  then show ?case by simp
next
  case (Cons e es)
  obtain a b w where e: "e = (a, b, w)" by (cases e)
  show ?case unfolding e using Cons.IH by (cases "a = v"; cases "b = v") auto
qed

lemma distinct_other_ends: "distinct (map ends es) \<Longrightarrow> distinct (other_ends v es)"
proof (induction es)
  case Nil
  then show ?case by simp
next
  case (Cons e es)
  obtain a b w where e: "e = (a, b, w)" by (cases e)
  have "\<And>x. x \<in> set (other_ends v es) \<Longrightarrow> {v, x} \<in> ends ` set es"
    by (force simp: set_other_ends joins_ends)
  with Cons show ?case
    by (auto simp: e ends_def insert_commute)
qed

lemma set_first_none: "\<forall>e\<in>set es. \<not> joins a b e \<Longrightarrow> set_first a b s es = es"
  by (induction es) auto

lemma del_first_none: "\<forall>e\<in>set es. \<not> joins a b e \<Longrightarrow> del_first a b es = es"
  by (induction es) auto

lemma set_first_split:
  "\<forall>y\<in>set ys. \<not> joins a b y \<Longrightarrow> joins a b (v1, v2, w) \<Longrightarrow>
   set_first a b s (ys @ (v1, v2, w) # zs) = ys @ (v1, v2, s) # zs"
  by (induction ys) auto

lemma del_first_split:
  "\<forall>y\<in>set ys. \<not> joins a b y \<Longrightarrow> joins a b x \<Longrightarrow> del_first a b (ys @ x # zs) = ys @ zs"
  by (induction ys) auto

lemma el_updateWall_eq:
  "el_updateWall g a b s = Inr (el_hasEdge g a b, g\<lparr>el_edges := set_first a b s (el_edges g)\<rparr>)"
proof (cases rule: enumerate_find_cases[of "joins a b" "el_edges g"])
  case none
  then show ?thesis
    by (simp add: el_updateWall_def match_cond_joins el_hasEdge_iff set_first_none)
next
  case (some ys x zs)
  obtain v1 v2 w where x: "x = (v1, v2, w)" by (cases x)
  have "el_hasEdge g a b" using some by (auto simp: el_hasEdge_iff)
  then show ?thesis using some set_first_split[of ys a b v1 v2 w s zs]
    by (simp add: el_updateWall_def match_cond_joins x)
qed

lemma el_removeEdge_eq:
  "el_removeEdge g a b = Inr (el_hasEdge g a b, g\<lparr>el_edges := del_first a b (el_edges g)\<rparr>)"
proof (cases rule: enumerate_find_cases[of "joins a b" "el_edges g"])
  case none
  then show ?thesis
    by (simp add: el_removeEdge_def match_cond_joins el_hasEdge_iff del_first_none)
next
  case (some ys x zs)
  have "el_hasEdge g a b" using some by (auto simp: el_hasEdge_iff)
  then show ?thesis using some del_first_split[of ys a b x zs]
    by (simp add: el_removeEdge_def match_cond_joins)
qed

lemma im_updateWall_eq:
  "im_updateWall g a b s = Inr (im_hasEdge g a b, g\<lparr>im_edges := set_first a b s (im_edges g)\<rparr>)"
proof (cases rule: enumerate_find_cases[of "joins a b" "im_edges g"])
  case none
  then show ?thesis
    by (simp add: im_updateWall_def match_cond_joins im_hasEdge_iff set_first_none)
next
  case (some ys x zs)
  obtain v1 v2 w where x: "x = (v1, v2, w)" by (cases x)
  have "im_hasEdge g a b" using some by (auto simp: im_hasEdge_iff)
  then show ?thesis using some set_first_split[of ys a b v1 v2 w s zs]
    by (simp add: im_updateWall_def match_cond_joins x)
qed

lemma map_ends_set_first: "map ends (set_first a b s es) = map ends es"
  by (induction es) (auto simp: ends_def split: prod.splits)

lemma incidence_row_set_first: "incidence_row (set_first a b s es) v = incidence_row es v"
  by (induction es) (auto simp: incidence_row_def split: prod.splits)

lemma first_wall_set_first:
  "\<exists>e\<in>set es. joins a b e \<Longrightarrow> first_wall a b (set_first a b s es) = s"
  by (induction es) (auto split: prod.splits)

lemma set_del_first: "set (del_first a b es) \<subseteq> set es"
  by (induction es) auto

lemma distinct_del_first: "distinct (map ends es) \<Longrightarrow> distinct (map ends (del_first a b es))"
  using set_del_first[of a b] by (induction es) auto

lemma del_first_gone:
  "distinct (map ends es) \<Longrightarrow> \<forall>e\<in>set (del_first a b es). \<not> joins a b e"
  by (induction es) (auto simp: joins_ends)

lemma dict_contains_iff: "dict_contains d k \<longleftrightarrow> k \<in> fst ` set d"
  by (simp add: dict_contains_def map_of_eq_None_iff)

lemma dict_setitem_new: "k \<notin> fst ` set d \<Longrightarrow> dict_setitem d k x = d @ [(k, x)]"
  by (induction d) auto

lemma dict_ok_lookup:
  assumes "dict_ok d" "k \<in> fst ` set d"
  shows "\<exists>r<length d. dict_getitem d k = Inr r \<and> map fst d ! r = k"
proof -
  from assms(2) obtain r where r: "r < length d" "fst (d ! r) = k"
    by (auto simp: in_set_conv_nth)
  have "snd (d ! r) = r"
    using assms(1) r(1) unfolding dict_ok_def by (metis add_0 nth_map nth_upt)
  then have "(k, r) \<in> set d" using r by (metis nth_mem prod.collapse)
  then have "map_of d k = Some r" using assms(1) by (simp add: dict_ok_def)
  then show ?thesis using r by (auto simp: dict_getitem_def)
qed

lemma incidence_row_none:
  "\<forall>e\<in>set es. v \<notin> ends e \<Longrightarrow> incidence_row es v = replicate (length es) 0"
  by (induction es) (auto simp: incidence_row_def ends_def split: if_splits)

lemma length_incidence_row [simp]: "length (incidence_row es v) = length es"
  by (simp add: incidence_row_def)

lemma incidence_row_snoc:
  "incidence_row (es @ [(a, b, w)]) v = incidence_row es v @ [if a = v \<or> b = v then 1 else 0]"
  by (simp add: incidence_row_def)

lemma im_addVertex_inv:
  assumes "im_inv g"
  shows "im_inv (im_addVertex g v)"
proof (cases "im_hasVertex g v")
  case True
  then show ?thesis using assms by (simp add: im_addVertex_def)
next
  case False
  then have new: "v \<notin> fst ` set (im_vertices g)"
    by (simp add: im_hasVertex_def dict_contains_iff)
  have row: "incidence_row (im_edges g) v = replicate (length (im_edges g)) 0"
    using assms new by (intro incidence_row_none) (auto simp: im_inv_def edges_ok_def)
  show ?thesis
    using assms False new row
    by (auto simp: im_addVertex_def im_inv_def dict_ok_def edges_ok_def dict_setitem_new)
qed

lemma mat_setitem_ok:
  "r < length mat \<Longrightarrow> c < length (mat ! r) \<Longrightarrow>
   mat_setitem mat r c x = Inr (mat[r := (mat ! r)[c := x]])"
  by (simp add: mat_setitem_def list_getitem_def list_setitem_def)

lemma addEdge_matrix:
  fixes es :: "'v edge list" and ks :: "'v list"
  assumes d: "distinct ks" and r1: "r1 < length ks" "ks ! r1 = a" and r2: "r2 < length ks" "ks ! r2 = b"
  defines "mat0 \<equiv> map (\<lambda>row. row @ [0]) (map (incidence_row es) ks)"
  defines "mat1 \<equiv> mat0[r1 := (mat0 ! r1)[length es := 1]]"
  shows "mat1[r2 := (mat1 ! r2)[length es := 1]] = map (incidence_row (es @ [(a, b, w)])) ks"
proof (rule nth_equalityI)
  show "length (mat1[r2 := (mat1 ! r2)[length es := 1]]) = length (map (incidence_row (es @ [(a, b, w)])) ks)"
    by (simp add: mat1_def mat0_def)
next
  fix i assume "i < length (mat1[r2 := (mat1 ! r2)[length es := 1]])"
  then have i: "i < length ks" by (simp add: mat1_def mat0_def)
  have eq1: "ks ! i = a \<longleftrightarrow> i = r1" using d i r1 by (auto simp: nth_eq_iff_index_eq)
  have eq2: "ks ! i = b \<longleftrightarrow> i = r2" using d i r2 by (auto simp: nth_eq_iff_index_eq)
  have m0: "\<And>j. j < length ks \<Longrightarrow> mat0 ! j = incidence_row es (ks ! j) @ [0]"
    by (simp add: mat0_def)
  have upd: "\<And>v x. (incidence_row es v @ [x])[length es := 1] = incidence_row es v @ [1]"
    by (simp add: list_update_append)
  have len0: "length mat0 = length ks" by (simp add: mat0_def)
  have m1: "\<And>j. j < length ks \<Longrightarrow>
      mat1 ! j = incidence_row es (ks ! j) @ [if j = r1 then 1 else 0]"
    using r1 by (auto simp: mat1_def m0 upd nth_list_update len0)
  have len1: "length mat1 = length ks" by (simp add: mat1_def len0)
  show "mat1[r2 := (mat1 ! r2)[length es := 1]] ! i = map (incidence_row (es @ [(a, b, w)])) ks ! i"
    using i r2 eq1 eq2
    by (auto simp: nth_list_update m1 upd incidence_row_snoc len1)
qed

lemma el_addEdge_eq:
  "el_addEdge g a b w =
     (if el_hasVertex g a \<and> el_hasVertex g b \<and> \<not> el_hasEdge g a b
      then (True, g\<lparr>el_edges := el_edges g @ [(a, b, wall_arg w)]\<rparr>) else (False, g))"
  by (simp add: el_addEdge_def)

lemma im_addEdge_eq:
  assumes "im_inv g"
  shows "im_addEdge g a b w =
     Inr (if im_hasVertex g a \<and> im_hasVertex g b \<and> \<not> im_hasEdge g a b
          then (True, g\<lparr>im_edges := im_edges g @ [(a, b, wall_arg w)],
                         im_incidence_mat := map (incidence_row (im_edges g @ [(a, b, wall_arg w)]))
                                               (map fst (im_vertices g))\<rparr>)
          else (False, g))"
proof (cases "im_hasVertex g a \<and> im_hasVertex g b \<and> \<not> im_hasEdge g a b")
  case False
  then show ?thesis by (auto simp: im_addEdge_def im_hasVertex_def)
next
  case True
  define ks where "ks = map fst (im_vertices g)"
  define es where "es = im_edges g"
  have dok: "dict_ok (im_vertices g)" and mat: "im_incidence_mat g = map (incidence_row es) ks"
    using assms by (simp_all add: im_inv_def ks_def es_def)
  have dist: "distinct ks" using dok by (simp add: dict_ok_def ks_def)
  from True have "a \<in> fst ` set (im_vertices g)" "b \<in> fst ` set (im_vertices g)"
    by (simp_all add: im_hasVertex_def dict_contains_iff)
  with dict_ok_lookup[OF dok] obtain r1 r2 where
    r1: "r1 < length ks" "dict_getitem (im_vertices g) a = Inr r1" "ks ! r1 = a" and
    r2: "r2 < length ks" "dict_getitem (im_vertices g) b = Inr r2" "ks ! r2 = b"
    unfolding ks_def by (metis length_map)
  define mat0 where "mat0 = map (\<lambda>row. row @ [0]) (map (incidence_row es) ks)"
  define mat1 where "mat1 = mat0[r1 := (mat0 ! r1)[length es := 1]]"
  have m0: "map (\<lambda>row. row @ [0]) (im_incidence_mat g) = mat0"
    by (simp add: mat mat0_def)
  have s1: "mat_setitem mat0 r1 (length es) 1 = Inr mat1"
    unfolding mat1_def using r1(1) by (intro mat_setitem_ok) (simp_all add: mat0_def)
  have s2: "mat_setitem mat1 r2 (length es) 1 = Inr (mat1[r2 := (mat1 ! r2)[length es := 1]])"
    using r1(1) r2(1) by (intro mat_setitem_ok) (auto simp: mat1_def mat0_def nth_list_update)
  have fin: "mat1[r2 := (mat1 ! r2)[length es := 1]] = map (incidence_row (es @ [(a, b, wall_arg w)])) ks"
    unfolding mat1_def mat0_def using dist r1 r2 by (intro addEdge_matrix) simp_all
  have step: "im_addEdge g a b w =
      Inr (True, g\<lparr>im_edges := es @ [(a, b, wall_arg w)],
                     im_incidence_mat := mat1[r2 := (mat1 ! r2)[length es := 1]]\<rparr>)"
    using True r1(2) r2(2) s1 s2
    by (simp add: im_addEdge_def im_hasVertex_def Let_def m0 flip: es_def)
  show ?thesis unfolding step fin using True by (simp add: es_def ks_def)
qed

lemma pop_column_rows:
  "\<forall>row\<in>set mat. i < length row \<Longrightarrow>
   pop_column mat i = Inr (map (\<lambda>row. take i row @ drop (Suc i) row) mat)"
  by (induction mat) (simp_all add: list_pop_def)

lemma incidence_row_cut:
  "take (length ys) (incidence_row (ys @ x # zs) v) @ drop (Suc (length ys)) (incidence_row (ys @ x # zs) v)
   = incidence_row (ys @ zs) v"
  by (simp add: incidence_row_def)

lemma im_removeEdge_eq:
  assumes "im_inv g"
  shows "im_removeEdge g a b =
     Inr (im_hasEdge g a b,
          g\<lparr>im_edges := del_first a b (im_edges g),
            im_incidence_mat := map (incidence_row (del_first a b (im_edges g)))
                                  (map fst (im_vertices g))\<rparr>)"
proof (cases rule: enumerate_find_cases[of "joins a b" "im_edges g"])
  case none
  have "g\<lparr>im_edges := im_edges g,
          im_incidence_mat := map (incidence_row (im_edges g)) (map fst (im_vertices g))\<rparr> = g"
    using assms by (simp add: im_inv_def)
  with none show ?thesis
    by (simp add: im_removeEdge_def match_cond_joins_swapped im_hasEdge_iff del_first_none)
next
  case (some ys x zs)
  have has: "im_hasEdge g a b" using some by (auto simp: im_hasEdge_iff)
  have mat: "im_incidence_mat g = map (incidence_row (ys @ x # zs)) (map fst (im_vertices g))"
    using assms some(2) by (simp add: im_inv_def)
  have "pop_column (im_incidence_mat g) (length ys) =
      Inr (map (\<lambda>row. take (length ys) row @ drop (Suc (length ys)) row) (im_incidence_mat g))"
    by (intro pop_column_rows) (auto simp: mat)
  also have "map (\<lambda>row. take (length ys) row @ drop (Suc (length ys)) row) (im_incidence_mat g)
      = map (incidence_row (ys @ zs)) (map fst (im_vertices g))"
    unfolding mat by (simp add: incidence_row_cut o_def del: take_map drop_map)
  finally have pc: "pop_column (im_incidence_mat g) (length ys) =
      Inr (map (incidence_row (ys @ zs)) (map fst (im_vertices g)))" .
  show ?thesis using some has del_first_split[of ys a b x zs] pc
    by (simp add: im_removeEdge_def match_cond_joins_swapped)
qed

lemma im_neighbours_loop_eq:
  "index < length mat \<Longrightarrow> mat ! index = pre @ incidence_row es label \<Longrightarrow> length pre = i \<Longrightarrow>
   im_neighbours_loop label index mat i es acc = Inr (acc @ other_ends label es)"
proof (induction es arbitrary: pre i acc)
  case Nil
  then show ?case by simp
next
  case (Cons e es)
  obtain v1 v2 w where e: "e = (v1, v2, w)" by (cases e)
  define c :: int where "c = (if v1 = label \<or> v2 = label then 1 else 0)"
  have row: "mat ! index = (pre @ [c]) @ incidence_row es label"
    using Cons.prems(2) by (simp add: e incidence_row_def c_def)
  have cell: "list_getitem (mat ! index) i = Inr c"
    using Cons.prems(3) by (simp add: row list_getitem_def nth_append)
  have ih: "\<And>acc. im_neighbours_loop label index mat (Suc i) es acc = Inr (acc @ other_ends label es)"
    using Cons.IH[OF Cons.prems(1) row] Cons.prems(3) by simp
  show ?case using Cons.prems(1) cell
    by (auto simp: e list_getitem_def ih c_def)
qed

lemma other_ends_nil: "\<forall>e\<in>set es. v \<notin> ends e \<Longrightarrow> other_ends v es = []"
  by (induction es) (auto simp: ends_def split: if_splits)

lemma im_neighbours_eq:
  assumes "im_inv g"
  shows "im_neighbours g v = Inr (other_ends v (im_edges g))"
proof (cases "im_hasVertex g v")
  case False
  then have "v \<notin> fst ` set (im_vertices g)" by (simp add: im_hasVertex_def dict_contains_iff)
  then have "other_ends v (im_edges g) = []"
    using assms by (intro other_ends_nil) (auto simp: im_inv_def edges_ok_def)
  then show ?thesis using False by (simp add: im_neighbours_def)
next
  case True
  have dok: "dict_ok (im_vertices g)" using assms by (simp add: im_inv_def)
  from True have "v \<in> fst ` set (im_vertices g)" by (simp add: im_hasVertex_def dict_contains_iff)
  with dict_ok_lookup[OF dok] obtain r where
    r: "r < length (im_vertices g)" "dict_getitem (im_vertices g) v = Inr r"
       "map fst (im_vertices g) ! r = v" by blast
  have "im_neighbours_loop v r (im_incidence_mat g) 0 (im_edges g) [] =
      Inr ([] @ other_ends v (im_edges g))"
    using assms r by (intro im_neighbours_loop_eq[where pre="[]"]) (simp_all add: im_inv_def)
  then show ?thesis using True r(2) by (simp add: im_neighbours_def)
qed

lemma edges_ok_mono: "edges_ok V es \<Longrightarrow> V \<subseteq> V' \<Longrightarrow> edges_ok V' es"
  by (auto simp: edges_ok_def)

lemma edges_ok_snoc:
  "edges_ok V es \<Longrightarrow> a \<in> V \<Longrightarrow> b \<in> V \<Longrightarrow> \<forall>e\<in>set es. \<not> joins a b e \<Longrightarrow>
   edges_ok V (es @ [(a, b, w)])"
  by (auto simp: edges_ok_def joins_ends) (auto simp: ends_def)

lemma edges_ok_alt:
  "edges_ok V es \<longleftrightarrow> (\<forall>s\<in>set (map ends es). s \<subseteq> V) \<and> distinct (map ends es)"
  by (auto simp: edges_ok_def)

lemma edges_ok_set_first: "edges_ok V es \<Longrightarrow> edges_ok V (set_first a b s es)"
  unfolding edges_ok_alt map_ends_set_first by simp

lemma edges_ok_del_first: "edges_ok V es \<Longrightarrow> edges_ok V (del_first a b es)"
  using set_del_first[of a b es] by (auto simp: edges_ok_def distinct_del_first)

lemma el_addVertex_inv: "el_inv g \<Longrightarrow> el_inv (el_addVertex g v)"
  by (auto simp: el_inv_def el_addVertex_def intro: edges_ok_mono)

lemma el_addVertices_inv: "el_inv g \<Longrightarrow> el_inv (el_addVertices g vs)"
  by (induction vs arbitrary: g) (simp_all add: el_addVertex_inv)

lemma el_addEdge_inv: "el_inv g \<Longrightarrow> el_inv (snd (el_addEdge g a b w))"
  by (simp add: el_addEdge_eq el_inv_def el_hasEdge_iff el_hasVertex_def edges_ok_snoc)

lemma el_call_inv:
  assumes "el_inv g"
  shows "\<exists>g'. el_call g c = Inr g' \<and> el_inv g'"
proof (cases c)
  case (AddVertex v)
  then show ?thesis using assms by (simp add: el_addVertex_inv)
next
  case (AddVertices vs)
  then show ?thesis using assms by (simp add: el_addVertices_inv)
next
  case (AddEdge a b w)
  then show ?thesis using assms by (simp add: el_addEdge_inv)
next
  case (UpdateWall a b s)
  then show ?thesis using assms by (simp add: el_updateWall_eq el_inv_def edges_ok_set_first)
next
  case (RemoveEdge a b)
  then show ?thesis using assms by (simp add: el_removeEdge_eq el_inv_def edges_ok_del_first)
qed

lemma el_calls_inv: "el_inv g \<Longrightarrow> \<exists>g'. el_calls g cs = Inr g' \<and> el_inv g'"
proof (induction cs arbitrary: g)
  case Nil
  then show ?case by simp
next
  case (Cons c cs)
  from el_call_inv[OF Cons.prems, of c] obtain g1 where "el_call g c = Inr g1" "el_inv g1"
    by blast
  with Cons.IH[of g1] show ?case by simp
qed

lemma el_run_inv: "\<exists>g. el_run cs = Inr g \<and> el_inv g"
  unfolding el_run_def by (rule el_calls_inv) (simp add: el_inv_def el_init_def edges_ok_def)

lemma im_addVertices_inv: "im_inv g \<Longrightarrow> im_inv (im_addVertices g vs)"
  by (induction vs arbitrary: g) (simp_all add: im_addVertex_inv)

lemma im_addEdge_inv:
  assumes "im_inv g"
  shows "\<exists>r g'. im_addEdge g a b w = Inr (r, g') \<and> im_inv g'"
  using assms
  by (auto simp: im_addEdge_eq im_inv_def im_hasEdge_iff im_hasVertex_def dict_contains_iff
      intro!: edges_ok_snoc)

lemma im_updateWall_inv:
  assumes "im_inv g"
  shows "\<exists>r g'. im_updateWall g a b s = Inr (r, g') \<and> im_inv g'"
  using assms
  by (simp add: im_updateWall_eq im_inv_def edges_ok_set_first incidence_row_set_first[abs_def])

lemma im_removeEdge_inv:
  assumes "im_inv g"
  shows "\<exists>r g'. im_removeEdge g a b = Inr (r, g') \<and> im_inv g'"
  using assms
  by (simp add: im_removeEdge_eq) (simp add: im_inv_def edges_ok_del_first)

lemma im_call_inv:
  assumes "im_inv g"
  shows "\<exists>g'. im_call g c = Inr g' \<and> im_inv g'"
proof (cases c)
  case (AddVertex v)
  then show ?thesis using assms by (simp add: im_addVertex_inv)
next
  case (AddVertices vs)
  then show ?thesis using assms by (simp add: im_addVertices_inv)
next
  case (AddEdge a b w)
  then show ?thesis using im_addEdge_inv[OF assms, of a b w] by auto
next
  case (UpdateWall a b s)
  then show ?thesis using im_updateWall_inv[OF assms, of a b s] by auto
next
  case (RemoveEdge a b)
  then show ?thesis using im_removeEdge_inv[OF assms, of a b] by auto
qed

lemma im_calls_inv: "im_inv g \<Longrightarrow> \<exists>g'. im_calls g cs = Inr g' \<and> im_inv g'"
proof (induction cs arbitrary: g)
  case Nil
  then show ?case by simp
next
  case (Cons c cs)
  from im_call_inv[OF Cons.prems, of c] obtain g1 where "im_call g c = Inr g1" "im_inv g1"
    by blast
  with Cons.IH[of g1] show ?case by simp
qed

lemma im_run_inv: "\<exists>g. im_run cs = Inr g \<and> im_inv g"
  unfolding im_run_def
  by (rule im_calls_inv) (simp add: im_inv_def im_init_def edges_ok_def dict_ok_def)

lemma sim_hasEdge: "sim ge gi \<Longrightarrow> el_hasEdge ge a b = im_hasEdge gi a b"
  by (simp add: sim_def el_hasEdge_iff im_hasEdge_iff)

lemma sim_hasVertex: "sim ge gi \<Longrightarrow> el_hasVertex ge v = im_hasVertex gi v"
  by (simp add: sim_def el_hasVertex_def im_hasVertex_def dict_contains_iff)

lemma im_addVertex_keys:
  "fst ` set (im_vertices (im_addVertex g v)) = insert v (fst ` set (im_vertices g))"
  by (auto simp: im_addVertex_def im_hasVertex_def dict_contains_iff dict_setitem_new)

lemma im_addVertex_edges: "im_edges (im_addVertex g v) = im_edges g"
  by (simp add: im_addVertex_def)

lemma sim_addVertex: "sim ge gi \<Longrightarrow> sim (el_addVertex ge v) (im_addVertex gi v)"
  by (simp add: sim_def im_addVertex_keys im_addVertex_edges) (simp add: el_addVertex_def)

lemma sim_addVertices: "sim ge gi \<Longrightarrow> sim (el_addVertices ge vs) (im_addVertices gi vs)"
  by (induction vs arbitrary: ge gi) (simp_all add: sim_addVertex)

lemma sim_call:
  assumes "im_inv gi" "sim ge gi" "el_call ge c = Inr ge'" "im_call gi c = Inr gi'"
  shows "sim ge' gi'"
proof (cases c)
  case (AddVertex v)
  then show ?thesis using assms sim_addVertex[of ge gi v] by auto
next
  case (AddVertices vs)
  then show ?thesis using assms sim_addVertices[of ge gi vs] by auto
next
  case (AddEdge a b w)
  have h: "el_hasEdge ge a b = im_hasEdge gi a b" "el_hasVertex ge a = im_hasVertex gi a"
    "el_hasVertex ge b = im_hasVertex gi b"
    using assms(2) by (simp_all add: sim_hasEdge sim_hasVertex)
  have s: "el_edges ge = im_edges gi" "el_vertices ge = fst ` set (im_vertices gi)"
    using assms(2) by (simp_all add: sim_def)
  define ok where "ok \<longleftrightarrow> im_hasVertex gi a \<and> im_hasVertex gi b \<and> \<not> im_hasEdge gi a b"
  have ge': "ge' = (if ok then ge\<lparr>el_edges := el_edges ge @ [(a, b, wall_arg w)]\<rparr> else ge)"
    using assms(3) by (auto simp: AddEdge el_addEdge_eq h ok_def split: if_splits)
  have gi': "gi' = (if ok then gi\<lparr>im_edges := im_edges gi @ [(a, b, wall_arg w)],
                         im_incidence_mat := map (incidence_row (im_edges gi @ [(a, b, wall_arg w)]))
                                               (map fst (im_vertices gi))\<rparr> else gi)"
    using assms(4) by (auto simp: AddEdge im_addEdge_eq[OF assms(1)] ok_def split: if_splits)
  show ?thesis unfolding ge' gi' sim_def using s by simp
next
  case (UpdateWall a b s)
  have "ge' = ge\<lparr>el_edges := set_first a b s (el_edges ge)\<rparr>"
    using assms(3) by (simp add: UpdateWall el_updateWall_eq)
  moreover have "gi' = gi\<lparr>im_edges := set_first a b s (im_edges gi)\<rparr>"
    using assms(4) by (simp add: UpdateWall im_updateWall_eq)
  ultimately show ?thesis using assms(2) by (simp add: sim_def)
next
  case (RemoveEdge a b)
  have "ge' = ge\<lparr>el_edges := del_first a b (el_edges ge)\<rparr>"
    using assms(3) by (simp add: RemoveEdge el_removeEdge_eq)
  moreover have "im_edges gi' = del_first a b (im_edges gi) \<and> im_vertices gi' = im_vertices gi"
    using assms(4) by (auto simp: RemoveEdge im_removeEdge_eq[OF assms(1)])
  ultimately show ?thesis using assms(2) by (simp add: sim_def)
qed

lemma sim_calls:
  "im_inv gi \<Longrightarrow> sim ge gi \<Longrightarrow> el_calls ge cs = Inr ge' \<Longrightarrow> im_calls gi cs = Inr gi' \<Longrightarrow>
   sim ge' gi'"
proof (induction cs arbitrary: ge gi)
  case Nil
  then show ?case by simp
next
  case (Cons c cs)
  from im_call_inv[OF Cons.prems(1), of c] obtain gi1 where
    gi1: "im_call gi c = Inr gi1" "im_inv gi1" by blast
  from Cons.prems(3) obtain ge1 where ge1: "el_call ge c = Inr ge1"
    by (cases "el_call ge c") simp_all
  have "sim ge1 gi1" using sim_call[OF Cons.prems(1,2) ge1 gi1(1)] .
  then show ?case using Cons.IH[OF gi1(2), of ge1] Cons.prems(3,4) ge1 gi1(1) by simp
qed

lemma sim_run: "el_run cs = Inr ge \<Longrightarrow> im_run cs = Inr gi \<Longrightarrow> sim ge gi"
  unfolding el_run_def im_run_def
  by (rule sim_calls[of im_init el_init])
     (simp_all add: im_inv_def im_init_def el_init_def edges_ok_def dict_ok_def sim_def)

lemma count_list_update_new:
  "i < length xs \<Longrightarrow> xs ! i \<noteq> y \<Longrightarrow> count_list (xs[i := y]) y = Suc (count_list xs y)"
proof (induction xs arbitrary: i)
  case Nil
  then show ?case by simp
next
  case (Cons x xs)
  then show ?case by (cases i) auto
qed

lemma count_list_replicate_other: "x \<noteq> y \<Longrightarrow> count_list (replicate n x) y = 0"
  by (induction n) auto

lemma count_two_cells:
  assumes "r1 < n" "r2 < n"
  shows "count_list ((replicate n (0::int))[r1 := 1, r2 := 1]) 1 = (if r1 = r2 then 1 else 2)"
proof -
  have one: "count_list ((replicate n (0::int))[r1 := 1]) 1 = 1"
    using assms(1) by (simp add: count_list_update_new count_list_replicate_other)
  show ?thesis
  proof (cases "r1 = r2")
    case True
    then show ?thesis using one by simp
  next
    case False
    then have "(replicate n (0::int))[r1 := 1] ! r2 \<noteq> 1" using assms by simp
    then show ?thesis using False one assms(2) by (simp add: count_list_update_new)
  qed
qed

lemma column_cells:
  assumes "distinct ks" "r1 < length ks" "r2 < length ks"
  shows "map (\<lambda>k. if ks ! r1 = k \<or> ks ! r2 = k then 1 else 0) ks
         = (replicate (length ks) (0::int))[r1 := 1, r2 := 1]"
proof (rule nth_equalityI)
  show "length (map (\<lambda>k. if ks ! r1 = k \<or> ks ! r2 = k then 1 else 0) ks)
        = length ((replicate (length ks) (0::int))[r1 := 1, r2 := 1])" by simp
next
  fix i assume "i < length (map (\<lambda>k. if ks ! r1 = k \<or> ks ! r2 = k then 1 else (0::int)) ks)"
  then have i: "i < length ks" by simp
  have "ks ! r1 = ks ! i \<longleftrightarrow> r1 = i" "ks ! r2 = ks ! i \<longleftrightarrow> r2 = i"
    using assms i by (simp_all add: nth_eq_iff_index_eq)
  then show "map (\<lambda>k. if ks ! r1 = k \<or> ks ! r2 = k then 1 else 0) ks ! i
        = (replicate (length ks) (0::int))[r1 := 1, r2 := 1] ! i"
    using i assms by (auto simp: nth_list_update)
qed

lemma im_inv_column:
  assumes "im_inv g" "c < length (im_edges g)" "im_edges g ! c = (v1, v2, w)"
  shows "\<exists>r1 r2. dict_getitem (im_vertices g) v1 = Inr r1 \<and> dict_getitem (im_vertices g) v2 = Inr r2
           \<and> r1 < length (im_vertices g) \<and> r2 < length (im_vertices g)
           \<and> mat_column (im_incidence_mat g) c = (replicate (length (im_vertices g)) 0)[r1 := 1, r2 := 1]
           \<and> count_list (mat_column (im_incidence_mat g) c) 1 = (if v1 = v2 then 1 else 2)"
proof -
  define ks where "ks = map fst (im_vertices g)"
  have dok: "dict_ok (im_vertices g)" and eok: "edges_ok (fst ` set (im_vertices g)) (im_edges g)"
    and mat: "im_incidence_mat g = map (incidence_row (im_edges g)) ks"
    using assms(1) by (simp_all add: im_inv_def ks_def)
  have dist: "distinct ks" using dok by (simp add: dict_ok_def ks_def)
  have "(v1, v2, w) \<in> set (im_edges g)" using assms(2,3) by (metis nth_mem)
  then have "v1 \<in> fst ` set (im_vertices g)" "v2 \<in> fst ` set (im_vertices g)"
    using eok by (auto simp: edges_ok_def ends_def)
  with dict_ok_lookup[OF dok] obtain r1 r2 where
    r1: "r1 < length ks" "dict_getitem (im_vertices g) v1 = Inr r1" "ks ! r1 = v1" and
    r2: "r2 < length ks" "dict_getitem (im_vertices g) v2 = Inr r2" "ks ! r2 = v2"
    unfolding ks_def by (metis length_map)
  have "mat_column (im_incidence_mat g) c = map (\<lambda>k. if v1 = k \<or> v2 = k then 1 else 0) ks"
    using assms(2,3) by (simp add: mat_column_def mat incidence_row_def)
  also have "\<dots> = (replicate (length ks) 0)[r1 := 1, r2 := 1]"
    using column_cells[OF dist r1(1) r2(1)] by (simp add: r1(3) r2(3))
  finally have col: "mat_column (im_incidence_mat g) c = (replicate (length ks) 0)[r1 := 1, r2 := 1]" .
  have "r1 = r2 \<longleftrightarrow> v1 = v2" using dist r1 r2 by (metis nth_eq_iff_index_eq)
  then have "count_list (mat_column (im_incidence_mat g) c) 1 = (if v1 = v2 then 1 else 2)"
    using count_two_cells[OF r1(1) r2(1)] by (simp add: col)
  then show ?thesis using r1 r2 col by (auto simp: ks_def)
qed

lemmas run_simps =
  el_run_def im_run_def el_init_def im_init_def el_addVertex_def im_addVertex_def
  el_addEdge_def im_addEdge_def el_updateWall_def im_updateWall_def el_removeEdge_def
  im_removeEdge_def el_hasVertex_def im_hasVertex_def el_hasEdge_def im_hasEdge_def
  dict_contains_def dict_getitem_def mat_setitem_def list_getitem_def list_setitem_def
  list_pop_def and_then_def wall_arg_def Let_def

lemma sim_getWallStatus: "sim ge gi \<Longrightarrow> el_getWallStatus ge a b = im_getWallStatus gi a b"
  by (simp add: sim_def el_getWallStatus_def im_getWallStatus_def
      el_getWallStatus_loop_eq im_getWallStatus_loop_eq)

lemma el_neighbours_eq: "el_neighbours g v = other_ends v (el_edges g)"
  by (simp add: el_neighbours_def el_neighbours_loop_eq)

lemma im_run_self_loop: "im_run [AddVertex (0::nat), AddEdge 0 0 None] =
   Inr \<lparr>im_vertices = [(0, 0)], im_edges = [(0, 0, False)], im_incidence_mat = [[1]]\<rparr>"
  by (simp add: run_simps)

lemma im_run_scenario: "im_run [AddVertex (0::nat), AddVertex 1, AddVertex 2, AddEdge 0 1 (Some True), AddEdge 0 1 (Some False),
     AddEdge 0 2 None, UpdateWall 0 1 False, RemoveEdge 0 2] =
   Inr \<lparr>im_vertices = [(0, 0), (1, 1), (2, 2)], im_edges = [(0, 1, False)], im_incidence_mat = [[1], [1], [0]]\<rparr>"
  by (simp add: run_simps)

lemma el_run_scenario: "el_run [AddVertex (0::nat), AddVertex 1, AddVertex 2, AddEdge 0 1 (Some True), AddEdge 0 1 (Some False),
     AddEdge 0 2 None, UpdateWall 0 1 False, RemoveEdge 0 2] =
   Inr \<lparr>el_edges = [(0, 1, False)], el_vertices = {2, 1, 0}\<rparr>"
  by (simp add: run_simps)

lemma el_getWallStatus_eq: "el_getWallStatus g a b = first_wall a b (el_edges g)"
  by (simp add: el_getWallStatus_def el_getWallStatus_loop_eq)

lemma im_getWallStatus_eq: "im_getWallStatus g a b = first_wall a b (im_edges g)"
  by (simp add: im_getWallStatus_def im_getWallStatus_loop_eq)

lemma first_wall_set_first_swapped:
  "\<exists>e\<in>set es. joins a b e \<Longrightarrow> first_wall b a (set_first a b s es) = s"
  using first_wall_set_first[of es a b s] by (simp add: first_wall_sym[of b a])

lemma el_updateWall_then_get:
  assumes "el_hasEdge g a b"
  shows "\<exists>g'. el_updateWall g a b s = Inr (True, g') \<and>
           el_getWallStatus g' a b = s \<and> el_getWallStatus g' b a = s"
  using assms
  by (simp add: el_updateWall_eq el_getWallStatus_eq el_hasEdge_iff
      first_wall_set_first first_wall_set_first_swapped)

lemma im_updateWall_then_get:
  assumes "im_hasEdge g a b"
  shows "\<exists>g'. im_updateWall g a b s = Inr (True, g') \<and>
           im_getWallStatus g' a b = s \<and> im_getWallStatus g' b a = s"
  using assms
  by (simp add: im_updateWall_eq im_getWallStatus_eq im_hasEdge_iff
      first_wall_set_first first_wall_set_first_swapped)

lemma el_hasEdge_sym: "el_hasEdge g a b = el_hasEdge g b a"
  by (simp add: el_hasEdge_iff joins_sym[of a b])

lemma im_hasEdge_sym: "im_hasEdge g a b = im_hasEdge g b a"
  by (simp add: im_hasEdge_iff joins_sym[of a b])

lemma set_first_shape:
  assumes "\<exists>e\<in>set es. joins v1 v2 e"
  shows "\<exists>ys a b w zs. es = ys @ (a, b, w) # zs \<and> ((a = v1 \<and> b = v2) \<or> (a = v2 \<and> b = v1)) \<and>
           set_first v1 v2 s es = ys @ (a, b, s) # zs"
proof (cases rule: enumerate_find_cases[of "joins v1 v2" es])
  case none
  then show ?thesis using assms by simp
next
  case (some ys x zs)
  obtain a b w where x: "x = (a, b, w)" by (cases x)
  have "set_first v1 v2 s es = ys @ (a, b, s) # zs"
    using some set_first_split[of ys v1 v2 a b w s zs] by (simp add: x)
  moreover have "(a = v1 \<and> b = v2) \<or> (a = v2 \<and> b = v1)" using some(4) by (simp add: x)
  ultimately show ?thesis using some(2) x by blast
qed

lemma first_wall_snoc_new:
  "\<forall>e\<in>set es. \<not> joins a b e \<Longrightarrow> first_wall a b (es @ [(a, b, w)]) = w"
  using first_wall_split[of es a b "(a, b, w)" "[]"] by simp

lemma el_addEdge_refused:
  assumes "\<not> el_hasVertex g a \<or> \<not> el_hasVertex g b \<or> el_hasEdge g a b \<or> el_hasEdge g b a"
  shows "el_addEdge g a b w = (False, g)"
  using assms el_hasEdge_sym[of g a b] by (auto simp: el_addEdge_eq)

lemma el_addEdge_done:
  assumes "\<not> (\<not> el_hasVertex g a \<or> \<not> el_hasVertex g b \<or> el_hasEdge g a b \<or> el_hasEdge g b a)"
  shows "\<exists>g'. el_addEdge g a b w = (True, g') \<and>
           g' = g\<lparr>el_edges := el_edges g @ [(a, b, wall_arg w)]\<rparr> \<and>
           el_hasEdge g' a b \<and> el_hasEdge g' b a \<and> el_getWallStatus g' a b = wall_arg w"
proof -
  have none: "\<forall>e\<in>set (el_edges g). \<not> joins a b e" using assms by (simp add: el_hasEdge_iff)
  show ?thesis using assms none
    by (simp add: el_addEdge_eq el_hasEdge_iff el_getWallStatus_eq first_wall_snoc_new)
qed

lemma im_addEdge_refused:
  assumes "im_inv g"
    and "\<not> im_hasVertex g a \<or> \<not> im_hasVertex g b \<or> im_hasEdge g a b \<or> im_hasEdge g b a"
  shows "im_addEdge g a b w = Inr (False, g)"
  using assms(2) im_hasEdge_sym[of g a b] by (auto simp: im_addEdge_eq[OF assms(1)])

lemma im_addEdge_done:
  assumes "im_inv g"
    and "\<not> (\<not> im_hasVertex g a \<or> \<not> im_hasVertex g b \<or> im_hasEdge g a b \<or> im_hasEdge g b a)"
  shows "\<exists>g'. im_addEdge g a b w = Inr (True, g') \<and>
           im_edges g' = im_edges g @ [(a, b, wall_arg w)] \<and> im_vertices g' = im_vertices g \<and>
           im_hasEdge g' a b \<and> im_hasEdge g' b a \<and> im_getWallStatus g' a b = wall_arg w"
proof -
  have none: "\<forall>e\<in>set (im_edges g). \<not> joins a b e" using assms(2) by (simp add: im_hasEdge_iff)
  show ?thesis using assms(2) none
    by (simp add: im_addEdge_eq[OF assms(1)] im_hasEdge_iff im_getWallStatus_eq first_wall_snoc_new)
qed

lemma im_run_two_vertices:
  "im_run [AddVertex (0::nat), AddVertex 1] =
   Inr \<lparr>im_vertices = [(0, 0), (1, 1)], im_edges = [], im_incidence_mat = [[], []]\<rparr>"
  by (simp add: run_simps)

lemma del_first_shape:
  assumes "\<exists>e\<in>set es. joins v1 v2 e"
  shows "\<exists>ys a b w zs. es = ys @ (a, b, w) # zs \<and> ((a = v1 \<and> b = v2) \<or> (a = v2 \<and> b = v1)) \<and>
           del_first v1 v2 es = ys @ zs"
proof (cases rule: enumerate_find_cases[of "joins v1 v2" es])
  case none
  then show ?thesis using assms by simp
next
  case (some ys x zs)
  obtain a b w where x: "x = (a, b, w)" by (cases x)
  have "del_first v1 v2 es = ys @ zs"
    using some del_first_split[of ys v1 v2 x zs] by simp
  moreover have "(a = v1 \<and> b = v2) \<or> (a = v2 \<and> b = v1)" using some(4) by (simp add: x)
  ultimately show ?thesis using some(2) x by blast
qed

lemma el_removeEdge_missing:
  "\<not> el_hasEdge g a b \<Longrightarrow> el_removeEdge g a b = Inr (False, g)"
  by (simp add: el_removeEdge_eq) (simp add: el_hasEdge_iff del_first_none)

lemma el_removeEdge_present:
  assumes "el_inv g" "el_hasEdge g v1 v2"
  shows "\<exists>g' ys a b w zs. el_removeEdge g v1 v2 = Inr (True, g') \<and>
           el_edges g = ys @ (a, b, w) # zs \<and> ((a = v1 \<and> b = v2) \<or> (a = v2 \<and> b = v1)) \<and>
           g' = g\<lparr>el_edges := ys @ zs\<rparr> \<and>
           \<not> el_hasEdge g' v1 v2 \<and> \<not> el_getWallStatus g' v1 v2 \<and>
           el_removeEdge g' v1 v2 = Inr (False, g')"
proof -
  define g' where "g' = g\<lparr>el_edges := del_first v1 v2 (el_edges g)\<rparr>"
  have r: "el_removeEdge g v1 v2 = Inr (True, g')"
    using assms(2) by (simp add: el_removeEdge_eq g'_def)
  have gone: "\<forall>e\<in>set (el_edges g'). \<not> joins v1 v2 e"
    using assms(1) del_first_gone[of "el_edges g" v1 v2] by (simp add: g'_def el_inv_def edges_ok_def)
  then have no: "\<not> el_hasEdge g' v1 v2" by (simp add: el_hasEdge_iff)
  have nw: "\<not> el_getWallStatus g' v1 v2"
    using gone by (simp add: el_getWallStatus_eq first_wall_none)
  from del_first_shape[of "el_edges g" v1 v2] assms(2) obtain ys a b w zs where
    sh: "el_edges g = ys @ (a, b, w) # zs" "(a = v1 \<and> b = v2) \<or> (a = v2 \<and> b = v1)"
      "del_first v1 v2 (el_edges g) = ys @ zs"
    by (auto simp: el_hasEdge_iff)
  have "g' = g\<lparr>el_edges := ys @ zs\<rparr>" by (simp add: g'_def sh(3))
  then show ?thesis using r sh(1,2) no nw el_removeEdge_missing[OF no] by blast
qed

lemma im_removeEdge_missing:
  assumes "im_inv g" "\<not> im_hasEdge g a b"
  shows "im_removeEdge g a b = Inr (False, g)"
proof -
  have "g\<lparr>im_edges := im_edges g,
          im_incidence_mat := map (incidence_row (im_edges g)) (map fst (im_vertices g))\<rparr> = g"
    using assms(1) by (simp add: im_inv_def)
  then show ?thesis using assms(2)
    by (simp add: im_removeEdge_eq[OF assms(1)] im_hasEdge_iff del_first_none)
qed

lemma im_removeEdge_present:
  assumes "im_inv g" "im_hasEdge g v1 v2"
  shows "\<exists>g' ys a b w zs. im_removeEdge g v1 v2 = Inr (True, g') \<and>
           im_edges g = ys @ (a, b, w) # zs \<and> ((a = v1 \<and> b = v2) \<or> (a = v2 \<and> b = v1)) \<and>
           im_edges g' = ys @ zs \<and> im_vertices g' = im_vertices g \<and>
           \<not> im_hasEdge g' v1 v2 \<and> \<not> im_getWallStatus g' v1 v2 \<and>
           im_removeEdge g' v1 v2 = Inr (False, g')"
proof -
  define g' where "g' = g\<lparr>im_edges := del_first v1 v2 (im_edges g),
      im_incidence_mat := map (incidence_row (del_first v1 v2 (im_edges g))) (map fst (im_vertices g))\<rparr>"
  have r: "im_removeEdge g v1 v2 = Inr (True, g')"
    using assms(2) by (simp add: im_removeEdge_eq[OF assms(1)] g'_def)
  have inv': "im_inv g'" using im_removeEdge_inv[OF assms(1), of v1 v2] r by simp
  have gone: "\<forall>e\<in>set (im_edges g'). \<not> joins v1 v2 e"
    using assms(1) del_first_gone[of "im_edges g" v1 v2] by (simp add: g'_def im_inv_def edges_ok_def)
  then have no: "\<not> im_hasEdge g' v1 v2" by (simp add: im_hasEdge_iff)
  have nw: "\<not> im_getWallStatus g' v1 v2"
    using gone by (simp add: im_getWallStatus_eq first_wall_none)
  from del_first_shape[of "im_edges g" v1 v2] assms(2) obtain ys a b w zs where
    sh: "im_edges g = ys @ (a, b, w) # zs" "(a = v1 \<and> b = v2) \<or> (a = v2 \<and> b = v1)"
      "del_first v1 v2 (im_edges g) = ys @ zs"
    by (auto simp: im_hasEdge_iff)
  have "im_edges g' = ys @ zs" "im_vertices g' = im_vertices g" by (simp_all add: g'_def sh(3))
  then show ?thesis using r sh(1,2) no nw im_removeEdge_missing[OF inv' no] by blast
qed

lemma el_run_one_edge:
  "el_run [AddVertex (0::nat), AddVertex 1, AddEdge 0 1 (Some True)] =
   Inr \<lparr>el_edges = [(0, 1, True)], el_vertices = {1, 0}\<rparr>"
  by (simp add: run_simps)

lemma im_run_one_edge:
  "im_run [AddVertex (0::nat), AddVertex 1, AddEdge 0 1 (Some True)] =
   Inr \<lparr>im_vertices = [(0, 0), (1, 1)], im_edges = [(0, 1, True)], im_incidence_mat = [[1], [1]]\<rparr>"
  by (simp add: run_simps)

lemma el_addVertices_vertices: "el_vertices (el_addVertices g vs) = el_vertices g \<union> set vs"
  by (induction vs arbitrary: g) (auto simp: el_addVertex_def)

lemma el_call_vertices:
  "el_call g c = Inr g' \<Longrightarrow> el_vertices g' = el_vertices g \<union> added_vertices [c]"
  by (cases c)
     (auto simp: el_addVertex_def el_addVertices_vertices el_addEdge_eq el_updateWall_eq
        el_removeEdge_eq split: if_splits)

lemma added_vertices_Cons: "added_vertices (c # cs) = added_vertices [c] \<union> added_vertices cs"
  by (cases c) auto

lemma el_calls_vertices:
  "el_calls g cs = Inr g' \<Longrightarrow> el_vertices g' = el_vertices g \<union> added_vertices cs"
proof (induction cs arbitrary: g)
  case Nil
  then show ?case by simp
next
  case (Cons c cs)
  from Cons.prems obtain g1 where g1: "el_call g c = Inr g1" "el_calls g1 cs = Inr g'"
    by (cases "el_call g c") simp_all
  show ?case
    using Cons.IH[OF g1(2)] el_call_vertices[OF g1(1)] added_vertices_Cons[of c cs] by auto
qed

lemma map_of_dict_setitem: "map_of (dict_setitem d k x) k = Some x"
  by (induction d) auto

lemma im_addVertex_has: "im_hasVertex (im_addVertex g v) v"
  by (simp add: im_addVertex_def im_hasVertex_def dict_contains_def map_of_dict_setitem)

lemma im_addVertex_twice: "im_addVertex (im_addVertex g v) v = im_addVertex g v"
  using im_addVertex_has[of g v] by (simp add: im_addVertex_def[of "im_addVertex g v"])

lemma other_ends_self_loop_once:
  assumes "\<forall>e\<in>set es. \<not> joins v v e"
  shows "count_list (other_ends v (es @ [(v, v, w)])) v = 1"
proof -
  have "v \<notin> set (other_ends v es)" using assms by (simp add: set_other_ends)
  then have "count_list (other_ends v es) v = 0" by (simp add: count_list_0_iff)
  then show ?thesis by (simp add: other_ends_append)
qed

lemma el_self_loop:
  assumes "el_hasVertex g v" "\<not> el_hasEdge g v v"
  shows "\<exists>g'. el_addEdge g v v wall = (True, g') \<and> el_hasEdge g' v v \<and>
           count_list (el_neighbours g' v) v = 1"
proof -
  have none: "\<forall>e\<in>set (el_edges g). \<not> joins v v e" using assms(2) by (simp add: el_hasEdge_iff)
  show ?thesis using assms other_ends_self_loop_once[OF none]
    by (simp add: el_addEdge_eq el_hasEdge_iff el_neighbours_eq)
qed

lemma im_self_loop:
  assumes "im_inv g" "im_hasVertex g v" "\<not> im_hasEdge g v v"
  shows "\<exists>g' ns r. im_addEdge g v v wall = Inr (True, g') \<and>
           im_edges g' = im_edges g @ [(v, v, wall_arg wall)] \<and>
           im_hasEdge g' v v \<and> im_neighbours g' v = Inr ns \<and> count_list ns v = 1 \<and>
           dict_getitem (im_vertices g') v = Inr r \<and> r < length (im_vertices g') \<and>
           mat_column (im_incidence_mat g') (length (im_edges g)) =
             (replicate (length (im_vertices g')) 0)[r := 1] \<and>
           count_list (mat_column (im_incidence_mat g') (length (im_edges g))) 1 = 1"
proof -
  define g' where "g' = g\<lparr>im_edges := im_edges g @ [(v, v, wall_arg wall)],
      im_incidence_mat := map (incidence_row (im_edges g @ [(v, v, wall_arg wall)]))
                            (map fst (im_vertices g))\<rparr>"
  have r: "im_addEdge g v v wall = Inr (True, g')"
    using assms(2,3) by (simp add: im_addEdge_eq[OF assms(1)] g'_def)
  have inv': "im_inv g'" using im_addEdge_inv[OF assms(1), of v v wall] r by simp
  have es: "im_edges g' = im_edges g @ [(v, v, wall_arg wall)]" by (simp add: g'_def)
  have none: "\<forall>e\<in>set (im_edges g). \<not> joins v v e" using assms(3) by (simp add: im_hasEdge_iff)
  have has: "im_hasEdge g' v v" by (simp add: im_hasEdge_iff es)
  have nb: "im_neighbours g' v = Inr (other_ends v (im_edges g'))"
    by (rule im_neighbours_eq[OF inv'])
  have cnt: "count_list (other_ends v (im_edges g')) v = 1"
    unfolding es by (rule other_ends_self_loop_once[OF none])
  have "length (im_edges g) < length (im_edges g')"
    and "im_edges g' ! length (im_edges g) = (v, v, wall_arg wall)"
    by (simp_all add: es)
  from im_inv_column[OF inv' this] obtain r1 r2 where
    c: "dict_getitem (im_vertices g') v = Inr r1" "dict_getitem (im_vertices g') v = Inr r2"
      "r1 < length (im_vertices g')"
      "mat_column (im_incidence_mat g') (length (im_edges g)) =
         (replicate (length (im_vertices g')) 0)[r1 := 1, r2 := 1]"
      "count_list (mat_column (im_incidence_mat g') (length (im_edges g))) 1 = (if v = v then 1 else 2)"
    by blast
  have "r2 = r1" using c(1,2) by simp
  then have "mat_column (im_incidence_mat g') (length (im_edges g)) =
         (replicate (length (im_vertices g')) 0)[r1 := 1]"
    using c(4) by simp
  then show ?thesis using r es has nb cnt c(1,3,5) by auto
qed

lemma im_run_one_vertex:
  "im_run [AddVertex (0::nat)] = Inr \<lparr>im_vertices = [(0, 0)], im_edges = [], im_incidence_mat = [[]]\<rparr>"
  by (simp add: run_simps)

section \<open>The claims\<close>

text \<open>
  C1. The same sequence of calls is applied to a fresh \<^verbatim>\<open>EdgeListGraph\<close> and a fresh
  \<^verbatim>\<open>IncMatGraph\<close>. After every prefix \<open>take n cs\<close> neither object has raised, and
  the two agree on \<^verbatim>\<open>hasVertex\<close> for every vertex, on \<^verbatim>\<open>hasEdge\<close> and
  \<^verbatim>\<open>getWallStatus\<close> for every pair, and on \<^verbatim>\<open>neighbours\<close> as sets.
\<close>

theorem cross_backing_equivalence:
  "\<exists>ge gi. el_run (take n cs) = Inr ge \<and> im_run (take n cs) = Inr gi \<and>
     (\<forall>v. el_hasVertex ge v = im_hasVertex gi v) \<and>
     (\<forall>v1 v2. el_hasEdge ge v1 v2 = im_hasEdge gi v1 v2) \<and>
     (\<forall>v1 v2. el_getWallStatus ge v1 v2 = im_getWallStatus gi v1 v2) \<and>
     (\<forall>v. \<exists>ns. im_neighbours gi v = Inr ns \<and> set ns = set (el_neighbours ge v))"
proof -
  obtain ge where ge: "el_run (take n cs) = Inr ge" using el_run_inv by blast
  obtain gi where gi: "im_run (take n cs) = Inr gi" "im_inv gi" using im_run_inv by blast
  have s: "sim ge gi" using sim_run[OF ge gi(1)] .
  have nb: "\<And>v. im_neighbours gi v = Inr (el_neighbours ge v)"
    using s by (simp add: im_neighbours_eq[OF gi(2)] el_neighbours_eq sim_def)
  show ?thesis
    using ge gi(1) sim_hasVertex[OF s] sim_hasEdge[OF s] sim_getWallStatus[OF s] nb by simp
qed

text \<open>
  C2, as amended. In every state of \<^verbatim>\<open>IncMatGraph\<close> that a sequence of calls reaches from
  the empty graph, the row numbers of the vertices are \<open>0, 1, \<dots>\<close> in insertion order
  and the matrix has one row per vertex; every row has one cell per edge; and the column
  of every edge holds 1 at the rows of the edge's endpoints and 0 everywhere else, which
  is two 1-cells when the endpoints differ and one 1-cell when the edge is a self-loop.
\<close>

theorem incidence_matrix_invariant:
  assumes "im_run cs = Inr g"
  shows "length (im_incidence_mat g) = length (im_vertices g) \<and>
         map snd (im_vertices g) = [0..<length (im_vertices g)] \<and>
         distinct (map fst (im_vertices g)) \<and>
         (\<forall>row\<in>set (im_incidence_mat g). length row = length (im_edges g)) \<and>
         (\<forall>c v1 v2 w. c < length (im_edges g) \<and> im_edges g ! c = (v1, v2, w) \<longrightarrow>
            (\<exists>r1 r2. dict_getitem (im_vertices g) v1 = Inr r1 \<and>
                     dict_getitem (im_vertices g) v2 = Inr r2 \<and>
                     r1 < length (im_vertices g) \<and> r2 < length (im_vertices g) \<and>
                     mat_column (im_incidence_mat g) c =
                       (replicate (length (im_vertices g)) 0)[r1 := 1, r2 := 1] \<and>
                     count_list (mat_column (im_incidence_mat g) c) 1 =
                       (if v1 = v2 then 1 else 2)))"
proof -
  have inv: "im_inv g" using im_run_inv[of cs] assms by auto
  have "length (im_incidence_mat g) = length (im_vertices g)"
    and "map snd (im_vertices g) = [0..<length (im_vertices g)]"
    and "distinct (map fst (im_vertices g))"
    and "\<forall>row\<in>set (im_incidence_mat g). length row = length (im_edges g)"
    using inv by (auto simp: im_inv_def dict_ok_def)
  then show ?thesis using im_inv_column[OF inv] by blast
qed

theorem incidence_matrix_invariant_witness:
  "length (im_incidence_mat \<lparr>im_vertices = [(0::nat, 0), (1, 1), (2, 2)],
      im_edges = [(0, 1, False)], im_incidence_mat = [[1], [1], [0]]\<rparr>) = 3 \<and>
   mat_column [[1], [1], [0]] 0 = [1, 1, 0] \<and>
   count_list (mat_column [[1], [1], [0]] 0) 1 = 2"
proof -
  let ?g = "\<lparr>im_vertices = [(0::nat, 0), (1, 1), (2, 2)],
      im_edges = [(0, 1, False)], im_incidence_mat = [[1], [1], [0]]\<rparr>"
  have "0 < length (im_edges ?g) \<and> im_edges ?g ! 0 = (0, 1, False)" by simp
  with incidence_matrix_invariant[OF im_run_scenario] obtain r1 r2 where
    "dict_getitem (im_vertices ?g) 0 = Inr r1" "dict_getitem (im_vertices ?g) 1 = Inr r2"
    "mat_column (im_incidence_mat ?g) 0 = (replicate (length (im_vertices ?g)) 0)[r1 := 1, r2 := 1]"
    "count_list (mat_column (im_incidence_mat ?g) 0) 1 = (if (0::nat) = 1 then 1 else 2)"
    by blast
  then show ?thesis by (simp add: dict_getitem_def mat_column_def)
qed

text \<open>
  The column of a self-loop: after \<^verbatim>\<open>addVertex(0); addEdge(0, 0)\<close> the matrix is
  \<open>[[1]]\<close>, and the column of the only edge holds one 1-cell, not two.
\<close>

theorem incidence_column_two_cells_counterexample:
  "im_run [AddVertex (0::nat), AddEdge 0 0 None] =
     Inr \<lparr>im_vertices = [(0, 0)], im_edges = [(0, 0, False)], im_incidence_mat = [[1]]\<rparr> \<and>
   count_list (mat_column [[1]] 0) 1 = (1::nat) \<and>
   count_list (mat_column [[1]] 0) 1 \<noteq> (2::nat)"
  by (simp add: run_simps mat_column_def)

text \<open>
  C3. \<^verbatim>\<open>addEdge(v1, v2, wall)\<close> returns false and leaves the object as it is when
  \<open>v1\<close> or \<open>v2\<close> is not a vertex or an edge between them exists in either order.
  Otherwise it returns true and appends the edge \<open>(v1, v2, wall)\<close>, with \<open>wall\<close> false
  when the argument is omitted; \<^verbatim>\<open>hasEdge\<close> then holds in both orders and
  \<^verbatim>\<open>getWallStatus\<close> returns the flag. For \<^verbatim>\<open>EdgeListGraph\<close> this holds in every state,
  for \<^verbatim>\<open>IncMatGraph\<close> in every state a sequence of calls reaches.
\<close>

theorem addEdge_contract:
  assumes "im_run cs = Inr gi"
  shows
  "(if \<not> el_hasVertex ge v1 \<or> \<not> el_hasVertex ge v2 \<or> el_hasEdge ge v1 v2 \<or> el_hasEdge ge v2 v1
    then el_addEdge ge v1 v2 wall = (False, ge)
    else \<exists>ge'. el_addEdge ge v1 v2 wall = (True, ge') \<and>
           ge' = ge\<lparr>el_edges := el_edges ge @
                   [(v1, v2, case wall of None \<Rightarrow> False | Some b \<Rightarrow> b)]\<rparr> \<and>
           el_hasEdge ge' v1 v2 \<and> el_hasEdge ge' v2 v1 \<and>
           el_getWallStatus ge' v1 v2 = (case wall of None \<Rightarrow> False | Some b \<Rightarrow> b)) \<and>
   (if \<not> im_hasVertex gi v1 \<or> \<not> im_hasVertex gi v2 \<or> im_hasEdge gi v1 v2 \<or> im_hasEdge gi v2 v1
    then im_addEdge gi v1 v2 wall = Inr (False, gi)
    else \<exists>gi'. im_addEdge gi v1 v2 wall = Inr (True, gi') \<and>
           im_edges gi' = im_edges gi @
                   [(v1, v2, case wall of None \<Rightarrow> False | Some b \<Rightarrow> b)] \<and>
           im_vertices gi' = im_vertices gi \<and>
           im_hasEdge gi' v1 v2 \<and> im_hasEdge gi' v2 v1 \<and>
           im_getWallStatus gi' v1 v2 = (case wall of None \<Rightarrow> False | Some b \<Rightarrow> b))"
proof -
  have inv: "im_inv gi" using im_run_inv[of cs] assms by auto
  have w: "(case wall of None \<Rightarrow> False | Some b \<Rightarrow> b) = wall_arg wall"
    by (simp add: wall_arg_def)
  show ?thesis
    unfolding w
    using el_addEdge_refused[of ge v1 v2 wall] el_addEdge_done[of ge v1 v2 wall]
      im_addEdge_refused[OF inv, of v1 v2 wall] im_addEdge_done[OF inv, of v1 v2 wall]
    by presburger
qed

theorem addEdge_contract_witness:
  "(\<exists>ge'. el_addEdge \<lparr>el_edges = [], el_vertices = {0::nat, 1}\<rparr> 0 1 None = (True, ge') \<and>
      ge' = \<lparr>el_edges = [(0, 1, False)], el_vertices = {0::nat, 1}\<rparr> \<and>
      el_hasEdge ge' 0 1 \<and> el_hasEdge ge' 1 0 \<and> el_getWallStatus ge' 0 1 = False) \<and>
   (\<exists>gi'. im_addEdge \<lparr>im_vertices = [(0::nat, 0), (1, 1)], im_edges = [],
                       im_incidence_mat = [[], []]\<rparr> 0 1 None = Inr (True, gi') \<and>
      im_edges gi' = [(0, 1, False)] \<and> im_vertices gi' = [(0, 0), (1, 1)] \<and>
      im_hasEdge gi' 0 1 \<and> im_hasEdge gi' 1 0 \<and> im_getWallStatus gi' 0 1 = False)"
  using addEdge_contract[OF im_run_two_vertices,
      of "\<lparr>el_edges = [], el_vertices = {0::nat, 1}\<rparr>" 0 1 None]
  by (simp add: el_hasVertex_def el_hasEdge_def im_hasVertex_def im_hasEdge_def dict_contains_def)

text \<open>
  C4. In every state a sequence of calls reaches, \<^verbatim>\<open>neighbours(v)\<close> returns, without
  repetition, exactly the vertices \<open>w\<close> for which \<^verbatim>\<open>hasEdge(v, w)\<close> holds; the
  \<^verbatim>\<open>IncMatGraph\<close> method does not raise, and returns the empty list when \<open>v\<close> is not
  a vertex.
\<close>

theorem neighbours_exact:
  assumes "el_run cs = Inr ge" and "im_run cs' = Inr gi"
  shows "distinct (el_neighbours ge v) \<and> set (el_neighbours ge v) = {w. el_hasEdge ge v w} \<and>
         (\<exists>ns. im_neighbours gi v = Inr ns \<and> distinct ns \<and> set ns = {w. im_hasEdge gi v w} \<and>
               (\<not> im_hasVertex gi v \<longrightarrow> ns = []))"
proof -
  have e: "el_inv ge" using el_run_inv[of cs] assms(1) by auto
  have i: "im_inv gi" using im_run_inv[of cs'] assms(2) by auto
  have "distinct (el_neighbours ge v)"
    using e by (simp add: el_neighbours_eq el_inv_def edges_ok_def distinct_other_ends)
  moreover have "set (el_neighbours ge v) = {w. el_hasEdge ge v w}"
    by (simp add: el_neighbours_eq set_other_ends el_hasEdge_iff)
  moreover have "distinct (other_ends v (im_edges gi))"
    using i by (simp add: im_inv_def edges_ok_def distinct_other_ends)
  moreover have "set (other_ends v (im_edges gi)) = {w. im_hasEdge gi v w}"
    by (simp add: set_other_ends im_hasEdge_iff)
  moreover have "\<not> im_hasVertex gi v \<Longrightarrow> other_ends v (im_edges gi) = []"
    using im_neighbours_eq[OF i, of v] by (simp add: im_neighbours_def)
  ultimately show ?thesis using im_neighbours_eq[OF i, of v] by simp
qed

theorem neighbours_exact_witness:
  "el_neighbours \<lparr>el_edges = [(0::nat, 1, False)], el_vertices = {2, 1, 0}\<rparr> 1 = [0] \<and>
   {w. el_hasEdge \<lparr>el_edges = [(0::nat, 1, False)], el_vertices = {2, 1, 0}\<rparr> 1 w} = {0} \<and>
   im_neighbours \<lparr>im_vertices = [(0::nat, 0), (1, 1), (2, 2)], im_edges = [(0, 1, False)],
                   im_incidence_mat = [[1], [1], [0]]\<rparr> 1 = Inr [0] \<and>
   {w. im_hasEdge \<lparr>im_vertices = [(0::nat, 0), (1, 1), (2, 2)], im_edges = [(0, 1, False)],
                   im_incidence_mat = [[1], [1], [0]]\<rparr> 1 w} = {0}"
  using neighbours_exact[OF el_run_scenario im_run_scenario, of 1]
  by (auto simp: el_neighbours_def im_neighbours_def run_simps)

text \<open>
  C5. Edge lookup does not depend on the order of the endpoints, in any state of either
  class: \<^verbatim>\<open>hasEdge\<close> and \<^verbatim>\<open>getWallStatus\<close> give the same answer for \<open>(v1, v2)\<close> and
  \<open>(v2, v1)\<close>; when the edge exists, \<^verbatim>\<open>updateWall\<close> with either order returns true
  and \<^verbatim>\<open>getWallStatus\<close> with either order then returns the new status.
\<close>

theorem edge_lookup_symmetric:
  "el_hasEdge ge v1 v2 = el_hasEdge ge v2 v1 \<and>
   el_getWallStatus ge v1 v2 = el_getWallStatus ge v2 v1 \<and>
   im_hasEdge gi v1 v2 = im_hasEdge gi v2 v1 \<and>
   im_getWallStatus gi v1 v2 = im_getWallStatus gi v2 v1 \<and>
   (el_hasEdge ge v1 v2 \<longrightarrow>
      (\<exists>g'. el_updateWall ge v1 v2 s = Inr (True, g') \<and>
            el_getWallStatus g' v1 v2 = s \<and> el_getWallStatus g' v2 v1 = s) \<and>
      (\<exists>g'. el_updateWall ge v2 v1 s = Inr (True, g') \<and>
            el_getWallStatus g' v1 v2 = s \<and> el_getWallStatus g' v2 v1 = s)) \<and>
   (im_hasEdge gi v1 v2 \<longrightarrow>
      (\<exists>g'. im_updateWall gi v1 v2 s = Inr (True, g') \<and>
            im_getWallStatus g' v1 v2 = s \<and> im_getWallStatus g' v2 v1 = s) \<and>
      (\<exists>g'. im_updateWall gi v2 v1 s = Inr (True, g') \<and>
            im_getWallStatus g' v1 v2 = s \<and> im_getWallStatus g' v2 v1 = s))"
proof -
  have e: "el_hasEdge ge v1 v2 \<Longrightarrow> el_hasEdge ge v2 v1"
    and i: "im_hasEdge gi v1 v2 \<Longrightarrow> im_hasEdge gi v2 v1"
    using el_hasEdge_sym[of ge v1 v2] im_hasEdge_sym[of gi v1 v2] by simp_all
  have "el_getWallStatus ge v1 v2 = el_getWallStatus ge v2 v1"
    by (simp add: el_getWallStatus_eq first_wall_sym[of v1 v2])
  moreover have "im_getWallStatus gi v1 v2 = im_getWallStatus gi v2 v1"
    by (simp add: im_getWallStatus_eq first_wall_sym[of v1 v2])
  ultimately show ?thesis
    using el_hasEdge_sym[of ge v1 v2] im_hasEdge_sym[of gi v1 v2]
      el_updateWall_then_get[of ge v1 v2 s] el_updateWall_then_get[OF e, of s]
      im_updateWall_then_get[of gi v1 v2 s] im_updateWall_then_get[OF i, of s]
    by blast
qed

theorem edge_lookup_symmetric_witness:
  "el_hasEdge \<lparr>el_edges = [(0::nat, 1, False)], el_vertices = {0, 1}\<rparr> 0 1 \<and>
   (\<exists>g'. el_updateWall \<lparr>el_edges = [(0::nat, 1, False)], el_vertices = {0, 1}\<rparr> 1 0 True = Inr (True, g')
         \<and> el_getWallStatus g' 0 1 = True \<and> el_getWallStatus g' 1 0 = True) \<and>
   im_hasEdge \<lparr>im_vertices = [(0::nat, 0), (1, 1)], im_edges = [(0, 1, False)],
                im_incidence_mat = [[1], [1]]\<rparr> 0 1 \<and>
   (\<exists>g'. im_updateWall \<lparr>im_vertices = [(0::nat, 0), (1, 1)], im_edges = [(0, 1, False)],
                im_incidence_mat = [[1], [1]]\<rparr> 1 0 True = Inr (True, g')
         \<and> im_getWallStatus g' 0 1 = True \<and> im_getWallStatus g' 1 0 = True)"
proof -
  have e: "el_hasEdge \<lparr>el_edges = [(0::nat, 1, False)], el_vertices = {0, 1}\<rparr> 0 1"
    by (simp add: el_hasEdge_def)
  have i: "im_hasEdge \<lparr>im_vertices = [(0::nat, 0), (1, 1)], im_edges = [(0, 1, False)],
                im_incidence_mat = [[1], [1]]\<rparr> 0 1"
    by (simp add: im_hasEdge_def)
  show ?thesis
    using e i edge_lookup_symmetric[of "\<lparr>el_edges = [(0::nat, 1, False)], el_vertices = {0, 1}\<rparr>" 0 1
        "\<lparr>im_vertices = [(0::nat, 0), (1, 1)], im_edges = [(0, 1, False)],
                im_incidence_mat = [[1], [1]]\<rparr>" True]
    by blast
qed

text \<open>
  C6. In every state a sequence of calls reaches, \<^verbatim>\<open>removeEdge(v1, v2)\<close> returns false
  and leaves the object as it is when no edge joins \<open>v1\<close> and \<open>v2\<close>. When one does,
  it returns true and that edge is taken out of the edge list; afterwards
  \<^verbatim>\<open>hasEdge(v1, v2)\<close> and \<^verbatim>\<open>getWallStatus(v1, v2)\<close> are false and a second
  \<^verbatim>\<open>removeEdge(v1, v2)\<close> returns false.
\<close>

theorem removeEdge_contract:
  assumes "el_run cs = Inr ge" and "im_run cs' = Inr gi"
  shows
  "(if el_hasEdge ge v1 v2
    then \<exists>ge' ys a b w zs. el_removeEdge ge v1 v2 = Inr (True, ge') \<and>
           el_edges ge = ys @ (a, b, w) # zs \<and> ((a = v1 \<and> b = v2) \<or> (a = v2 \<and> b = v1)) \<and>
           ge' = ge\<lparr>el_edges := ys @ zs\<rparr> \<and>
           \<not> el_hasEdge ge' v1 v2 \<and> \<not> el_getWallStatus ge' v1 v2 \<and>
           el_removeEdge ge' v1 v2 = Inr (False, ge')
    else el_removeEdge ge v1 v2 = Inr (False, ge)) \<and>
   (if im_hasEdge gi v1 v2
    then \<exists>gi' ys a b w zs. im_removeEdge gi v1 v2 = Inr (True, gi') \<and>
           im_edges gi = ys @ (a, b, w) # zs \<and> ((a = v1 \<and> b = v2) \<or> (a = v2 \<and> b = v1)) \<and>
           im_edges gi' = ys @ zs \<and> im_vertices gi' = im_vertices gi \<and>
           \<not> im_hasEdge gi' v1 v2 \<and> \<not> im_getWallStatus gi' v1 v2 \<and>
           im_removeEdge gi' v1 v2 = Inr (False, gi')
    else im_removeEdge gi v1 v2 = Inr (False, gi))"
proof -
  have e: "el_inv ge" using el_run_inv[of cs] assms(1) by auto
  have i: "im_inv gi" using im_run_inv[of cs'] assms(2) by auto
  show ?thesis
    using el_removeEdge_present[OF e, of v1 v2] el_removeEdge_missing[of ge v1 v2]
      im_removeEdge_present[OF i, of v1 v2] im_removeEdge_missing[OF i, of v1 v2]
    by presburger
qed

theorem removeEdge_contract_witness:
  "el_removeEdge \<lparr>el_edges = [(0::nat, 1, True)], el_vertices = {1, 0}\<rparr> 1 0 =
     Inr (True, \<lparr>el_edges = [], el_vertices = {1, 0}\<rparr>) \<and>
   el_removeEdge \<lparr>el_edges = [], el_vertices = {1, 0::nat}\<rparr> 1 0 =
     Inr (False, \<lparr>el_edges = [], el_vertices = {1, 0}\<rparr>) \<and>
   im_removeEdge \<lparr>im_vertices = [(0::nat, 0), (1, 1)], im_edges = [(0, 1, True)],
                   im_incidence_mat = [[1], [1]]\<rparr> 1 0 =
     Inr (True, \<lparr>im_vertices = [(0, 0), (1, 1)], im_edges = [], im_incidence_mat = [[], []]\<rparr>) \<and>
   im_removeEdge \<lparr>im_vertices = [(0::nat, 0), (1, 1)], im_edges = [],
                   im_incidence_mat = [[], []]\<rparr> 1 0 =
     Inr (False, \<lparr>im_vertices = [(0, 0), (1, 1)], im_edges = [], im_incidence_mat = [[], []]\<rparr>)"
  using removeEdge_contract[OF el_run_one_edge im_run_one_edge, of 1 0]
  by (simp add: run_simps)

text \<open>
  C7. In any state of either class, \<^verbatim>\<open>updateWall(v1, v2, status)\<close> returns false and
  leaves the object as it is when no edge joins \<open>v1\<close> and \<open>v2\<close>; when one does, it
  returns true and the new object differs from the old one in one entry of the edge list,
  an edge between \<open>v1\<close> and \<open>v2\<close> whose endpoints stay and whose flag becomes
  \<open>status\<close> (the vertices, and the matrix of \<^verbatim>\<open>IncMatGraph\<close>, are the old ones).
\<close>

theorem updateWall_contract:
  "(if el_hasEdge ge v1 v2
    then \<exists>ys a b w zs. el_edges ge = ys @ (a, b, w) # zs \<and>
           ((a = v1 \<and> b = v2) \<or> (a = v2 \<and> b = v1)) \<and>
           el_updateWall ge v1 v2 status = Inr (True, ge\<lparr>el_edges := ys @ (a, b, status) # zs\<rparr>)
    else el_updateWall ge v1 v2 status = Inr (False, ge)) \<and>
   (if im_hasEdge gi v1 v2
    then \<exists>ys a b w zs. im_edges gi = ys @ (a, b, w) # zs \<and>
           ((a = v1 \<and> b = v2) \<or> (a = v2 \<and> b = v1)) \<and>
           im_updateWall gi v1 v2 status = Inr (True, gi\<lparr>im_edges := ys @ (a, b, status) # zs\<rparr>)
    else im_updateWall gi v1 v2 status = Inr (False, gi))"
proof -
  have el: "el_hasEdge ge v1 v2 \<Longrightarrow>
      \<exists>ys a b w zs. el_edges ge = ys @ (a, b, w) # zs \<and>
           ((a = v1 \<and> b = v2) \<or> (a = v2 \<and> b = v1)) \<and>
           el_updateWall ge v1 v2 status = Inr (True, ge\<lparr>el_edges := ys @ (a, b, status) # zs\<rparr>)"
    using set_first_shape[of "el_edges ge" v1 v2 status]
    by (fastforce simp: el_hasEdge_iff el_updateWall_eq)
  have el0: "\<not> el_hasEdge ge v1 v2 \<Longrightarrow> el_updateWall ge v1 v2 status = Inr (False, ge)"
    by (simp add: el_updateWall_eq) (simp add: el_hasEdge_iff set_first_none)
  have im: "im_hasEdge gi v1 v2 \<Longrightarrow>
      \<exists>ys a b w zs. im_edges gi = ys @ (a, b, w) # zs \<and>
           ((a = v1 \<and> b = v2) \<or> (a = v2 \<and> b = v1)) \<and>
           im_updateWall gi v1 v2 status = Inr (True, gi\<lparr>im_edges := ys @ (a, b, status) # zs\<rparr>)"
    using set_first_shape[of "im_edges gi" v1 v2 status]
    by (fastforce simp: im_hasEdge_iff im_updateWall_eq)
  have im0: "\<not> im_hasEdge gi v1 v2 \<Longrightarrow> im_updateWall gi v1 v2 status = Inr (False, gi)"
    by (simp add: im_updateWall_eq) (simp add: im_hasEdge_iff set_first_none)
  show ?thesis using el el0 im im0 by presburger
qed

text \<open>
  C8. After a sequence of calls on a fresh object of either class, \<^verbatim>\<open>hasVertex(v)\<close>
  holds exactly when one of the calls added \<open>v\<close>, so it is false before any add of
  \<open>v\<close>. In any state, \<^verbatim>\<open>hasVertex(v)\<close> holds after \<^verbatim>\<open>addVertex(v)\<close>, and a second
  \<^verbatim>\<open>addVertex(v)\<close> returns the object it was given: vertices, row numbers, edges and
  matrix are the same.
\<close>

theorem addVertex_idempotent:
  assumes "el_run cs = Inr ge" and "im_run cs = Inr gi"
  shows "el_hasVertex ge v = (v \<in> added_vertices cs) \<and>
         im_hasVertex gi v = (v \<in> added_vertices cs) \<and>
         el_hasVertex (el_addVertex ge' v) v \<and>
         el_addVertex (el_addVertex ge' v) v = el_addVertex ge' v \<and>
         im_hasVertex (im_addVertex gi' v) v \<and>
         im_addVertex (im_addVertex gi' v) v = im_addVertex gi' v"
proof -
  have e: "el_hasVertex ge v = (v \<in> added_vertices cs)"
    using el_calls_vertices[of el_init cs ge] assms(1)
    by (simp add: el_run_def el_hasVertex_def el_init_def)
  have i: "im_hasVertex gi v = el_hasVertex ge v"
    using sim_hasVertex[OF sim_run[OF assms]] by simp
  show ?thesis
    using e i im_addVertex_has[of gi' v] im_addVertex_twice[of gi' v]
    by (simp add: el_hasVertex_def el_addVertex_def)
qed

theorem addVertex_idempotent_witness:
  "\<not> el_hasVertex \<lparr>el_edges = [(0::nat, 1, True)], el_vertices = {1, 0}\<rparr> 2 \<and>
   \<not> im_hasVertex \<lparr>im_vertices = [(0::nat, 0), (1, 1)], im_edges = [(0, 1, True)],
                     im_incidence_mat = [[1], [1]]\<rparr> 2 \<and>
   el_hasVertex \<lparr>el_edges = [(0::nat, 1, True)], el_vertices = {1, 0}\<rparr> 1 \<and>
   im_hasVertex \<lparr>im_vertices = [(0::nat, 0), (1, 1)], im_edges = [(0, 1, True)],
                   im_incidence_mat = [[1], [1]]\<rparr> 1 \<and>
   im_addVertex (im_addVertex (im_init :: nat IncMatGraph) 2) 2 = im_addVertex im_init 2"
  using addVertex_idempotent[OF el_run_one_edge im_run_one_edge, of 2 el_init im_init]
    addVertex_idempotent[OF el_run_one_edge im_run_one_edge, of 1 el_init im_init]
  by simp

text \<open>
  C9. In every state either class reaches from the empty graph, both endpoints of every
  stored edge are current vertices.
\<close>

theorem edge_endpoints_are_vertices:
  assumes "el_run cs = Inr ge" and "im_run cs' = Inr gi"
  shows "(\<forall>(v1, v2, w) \<in> set (el_edges ge). el_hasVertex ge v1 \<and> el_hasVertex ge v2) \<and>
         (\<forall>(v1, v2, w) \<in> set (im_edges gi). im_hasVertex gi v1 \<and> im_hasVertex gi v2)"
proof -
  have "el_inv ge" using el_run_inv[of cs] assms(1) by auto
  moreover have "im_inv gi" using im_run_inv[of cs'] assms(2) by auto
  ultimately show ?thesis
    by (auto simp: el_inv_def im_inv_def edges_ok_def ends_def el_hasVertex_def
        im_hasVertex_def dict_contains_iff)
qed

theorem edge_endpoints_are_vertices_witness:
  "el_hasVertex \<lparr>el_edges = [(0::nat, 1, False)], el_vertices = {2, 1, 0}\<rparr> 0 \<and>
   el_hasVertex \<lparr>el_edges = [(0::nat, 1, False)], el_vertices = {2, 1, 0}\<rparr> 1 \<and>
   im_hasVertex \<lparr>im_vertices = [(0::nat, 0), (1, 1), (2, 2)], im_edges = [(0, 1, False)],
                  im_incidence_mat = [[1], [1], [0]]\<rparr> 0 \<and>
   im_hasVertex \<lparr>im_vertices = [(0::nat, 0), (1, 1), (2, 2)], im_edges = [(0, 1, False)],
                  im_incidence_mat = [[1], [1], [0]]\<rparr> 1"
  using edge_endpoints_are_vertices[OF el_run_scenario im_run_scenario] by simp

text \<open>
  C10. When \<open>v\<close> is a vertex and no edge joins \<open>v\<close> to itself, \<^verbatim>\<open>addEdge(v, v, wall)\<close>
  returns true in both classes (\<^verbatim>\<open>EdgeListGraph\<close> in any state, \<^verbatim>\<open>IncMatGraph\<close> in any
  state a sequence of calls reaches); afterwards \<^verbatim>\<open>hasEdge(v, v)\<close> holds and
  \<^verbatim>\<open>neighbours(v)\<close> lists \<open>v\<close> once. In \<^verbatim>\<open>IncMatGraph\<close> the column of the new edge, the
  last one, holds 1 in the row of \<open>v\<close> and 0 elsewhere: one 1-cell.
\<close>

theorem self_loop_accepted:
  assumes "im_run cs = Inr gi"
    and "el_hasVertex ge v" and "\<not> el_hasEdge ge v v"
    and "im_hasVertex gi v" and "\<not> im_hasEdge gi v v"
  shows "(\<exists>ge'. el_addEdge ge v v wall = (True, ge') \<and> el_hasEdge ge' v v \<and>
            count_list (el_neighbours ge' v) v = 1) \<and>
         (\<exists>gi' ns r. im_addEdge gi v v wall = Inr (True, gi') \<and>
            im_edges gi' = im_edges gi @ [(v, v, case wall of None \<Rightarrow> False | Some b \<Rightarrow> b)] \<and>
            im_hasEdge gi' v v \<and> im_neighbours gi' v = Inr ns \<and> count_list ns v = 1 \<and>
            dict_getitem (im_vertices gi') v = Inr r \<and> r < length (im_vertices gi') \<and>
            mat_column (im_incidence_mat gi') (length (im_edges gi)) =
              (replicate (length (im_vertices gi')) 0)[r := 1] \<and>
            count_list (mat_column (im_incidence_mat gi') (length (im_edges gi))) 1 = 1)"
proof -
  have inv: "im_inv gi" using im_run_inv[of cs] assms(1) by auto
  have w: "(case wall of None \<Rightarrow> False | Some b \<Rightarrow> b) = wall_arg wall"
    by (simp add: wall_arg_def)
  show ?thesis
    unfolding w using el_self_loop[OF assms(2,3), of wall] im_self_loop[OF inv assms(4,5), of wall]
    by simp
qed

theorem self_loop_accepted_witness:
  "el_addEdge \<lparr>el_edges = [], el_vertices = {0::nat}\<rparr> 0 0 None =
     (True, \<lparr>el_edges = [(0, 0, False)], el_vertices = {0}\<rparr>) \<and>
   el_neighbours \<lparr>el_edges = [(0::nat, 0, False)], el_vertices = {0}\<rparr> 0 = [0] \<and>
   im_addEdge \<lparr>im_vertices = [(0::nat, 0)], im_edges = [], im_incidence_mat = [[]]\<rparr> 0 0 None =
     Inr (True, \<lparr>im_vertices = [(0, 0)], im_edges = [(0, 0, False)], im_incidence_mat = [[1]]\<rparr>) \<and>
   im_neighbours \<lparr>im_vertices = [(0::nat, 0)], im_edges = [(0, 0, False)],
                   im_incidence_mat = [[1]]\<rparr> 0 = Inr [0] \<and>
   mat_column [[1]] 0 = [1]"
proof -
  have h: "el_hasVertex \<lparr>el_edges = [], el_vertices = {0::nat}\<rparr> 0"
    "\<not> el_hasEdge \<lparr>el_edges = [], el_vertices = {0::nat}\<rparr> 0 0"
    "im_hasVertex \<lparr>im_vertices = [(0::nat, 0)], im_edges = [], im_incidence_mat = [[]]\<rparr> 0"
    "\<not> im_hasEdge \<lparr>im_vertices = [(0::nat, 0)], im_edges = [], im_incidence_mat = [[]]\<rparr> 0 0"
    by (simp_all add: run_simps)
  show ?thesis
    using self_loop_accepted[OF im_run_one_vertex h, of None]
    by (simp add: run_simps el_neighbours_def im_neighbours_def mat_column_def)
qed

end
